theory Spec2Isabelle
  imports Complex_Main "HOL-Library.Multiset" "HOL-Library.Product_Lexorder" "HOL-Library.Log_Nat"
begin

section \<open>Geometry kernel (lib/utils/geometry.py)\<close>

text \<open>
  Points are Python tuples \<open>(x, y)\<close> of floats.  Coordinates are modelled as real
  numbers: rounding of IEEE doubles, infinities and NaN are outside this model.
\<close>

type_synonym point = "real \<times> real"

text \<open>\<open>_cross(o, a, b)\<close>: the 2-D cross product of \<open>OA\<close> and \<open>OB\<close>.\<close>

definition cross :: "point \<Rightarrow> point \<Rightarrow> point \<Rightarrow> real" where
  "cross p0 a b = (fst a - fst p0) * (snd b - snd p0) - (snd a - snd p0) * (fst b - fst p0)"

text \<open>
  The inner \<open>while\<close> loop of \<open>convex_hull\<close>: pop the last vertex of the chain as
  long as the chain has two vertices and the last two make no strict left turn with \<open>p\<close>.
\<close>

function pop_while :: "point list \<Rightarrow> point \<Rightarrow> point list" where
  "pop_while chain p =
     (if length chain \<ge> 2 \<and> cross (chain ! (length chain - 2)) (chain ! (length chain - 1)) p \<le> 0
      then pop_while (butlast chain) p
      else chain)"
  by pat_completeness auto
termination
  by (relation "measure (\<lambda>(chain, p). length chain)") auto

declare pop_while.simps [simp del]

text \<open>One \<open>for p in ...\<close> loop of \<open>convex_hull\<close>, started from the empty chain.\<close>

definition chain_step :: "point list \<Rightarrow> point \<Rightarrow> point list" where
  "chain_step chain p = pop_while chain p @ [p]"

definition build_chain :: "point list \<Rightarrow> point list" where
  "build_chain pts = foldl chain_step [] pts"

text \<open>
  \<open>convex_hull(points)\<close>.  \<open>sorted(set(points))\<close> is the duplicate-free list of the
  points in lexicographic order.
\<close>

definition convex_hull :: "point list \<Rightarrow> point list" where
  "convex_hull points =
     (let pts = sort (remdups points) in
      if length pts \<le> 1 then pts
      else let lower = build_chain pts; upper = build_chain (rev pts)
           in butlast lower @ butlast upper)"

text \<open>\<open>centroid(points)\<close>.\<close>

definition centroid :: "point list \<Rightarrow> point" where
  "centroid pts =
     (if pts = [] then (0, 0)
      else (sum_list (map fst pts) / real (length pts), sum_list (map snd pts) / real (length pts)))"

text \<open>\<open>_point_distance(pa, pb)\<close>.\<close>

definition point_distance :: "point \<Rightarrow> point \<Rightarrow> real" where
  "point_distance pa pb =
     (let dx = fst pa - fst pb; dy = snd pa - snd pb in sqrt (dx * dx + dy * dy))"

text \<open>
  Python's \<open>min\<close> and \<open>max\<close> over a non-empty sequence.  Both raise \<open>ValueError\<close> on
  an empty one; every call in this module is guarded by an emptiness test, and the
  value at \<open>[]\<close> below is never used.
\<close>

fun py_min :: "real list \<Rightarrow> real" where
  "py_min [] = 0"
| "py_min (x # xs) = foldl min x xs"

fun py_max :: "real list \<Rightarrow> real" where
  "py_max [] = 0"
| "py_max (x # xs) = foldl max x xs"

text \<open>The body of the \<open>for pa in a\<close> loop of \<open>_directed_hausdorff\<close>.\<close>

definition dh_step :: "point list \<Rightarrow> real \<Rightarrow> point \<Rightarrow> real" where
  "dh_step b max_min pa =
     (let min_d = py_min (map (point_distance pa) b)
      in if min_d > max_min then min_d else max_min)"

text \<open>\<open>_directed_hausdorff(a, b)\<close>.\<close>

definition directed_hausdorff :: "point list \<Rightarrow> point list \<Rightarrow> real" where
  "directed_hausdorff a b = (if a = [] \<or> b = [] then 0 else foldl (dh_step b) 0 a)"

text \<open>\<open>hausdorff_distance(a, b)\<close>.\<close>

definition hausdorff_distance :: "point list \<Rightarrow> point list \<Rightarrow> real" where
  "hausdorff_distance a b = max (directed_hausdorff a b) (directed_hausdorff b a)"

text \<open>\<open>translate(points, dx, dy)\<close> and \<open>rotate(points, angle_rad, origin)\<close>, as lists
  (the generators are consumed once by every caller).  \<open>rotate\<close> is named
  \<open>rotate_points\<close> here.\<close>

definition translate :: "point list \<Rightarrow> real \<Rightarrow> real \<Rightarrow> point list" where
  "translate points dx dy = map (\<lambda>(x, y). (x + dx, y + dy)) points"

definition rotate_points :: "point list \<Rightarrow> real \<Rightarrow> point \<Rightarrow> point list" where
  "rotate_points points angle_rad origin =
     (let ox = fst origin; oy = snd origin; cos_a = cos angle_rad; sin_a = sin angle_rad
      in map (\<lambda>(x, y).
            let tx = x - ox; ty = y - oy;
                rx = tx * cos_a - ty * sin_a;
                ry = tx * sin_a + ty * cos_a
            in (rx + ox, ry + oy)) points)"

text \<open>\<open>poly_bounds(points)\<close>: \<open>(minX, maxX, minY, maxY)\<close>.\<close>

definition poly_bounds :: "point list \<Rightarrow> real \<times> real \<times> real \<times> real" where
  "poly_bounds pts =
     (if pts = [] then (0, 0, 0, 0)
      else (py_min (map fst pts), py_max (map fst pts), py_min (map snd pts), py_max (map snd pts)))"

text \<open>
  \<open>pt_in_convex(pt, hull)\<close>.  The loop over the edges \<open>(hull[i], hull[(i + 1) % n])\<close>
  carries \<open>sign\<close>, which is \<open>None\<close> until the first edge with a cross product of
  magnitude at least \<open>1e-9\<close>.
\<close>

definition hull_edges :: "point list \<Rightarrow> (point \<times> point) list" where
  "hull_edges hl = map (\<lambda>i. (hl ! i, hl ! ((i + 1) mod length hl))) [0..<length hl]"

fun sign_scan :: "point \<Rightarrow> (point \<times> point) list \<Rightarrow> bool option \<Rightarrow> bool" where
  "sign_scan pt [] sign = True"
| "sign_scan pt ((p1, p2) # es) sign =
     (let cr = (fst pt - fst p1) * (snd p2 - snd p1) - (snd pt - snd p1) * (fst p2 - fst p1)
      in if \<bar>cr\<bar> < 1 / 10 ^ 9 then sign_scan pt es sign
         else (case sign of
                 None \<Rightarrow> sign_scan pt es (Some (cr > 0))
               | Some s \<Rightarrow> if s \<noteq> (cr > 0) then False else sign_scan pt es sign))"

definition pt_in_convex :: "point \<Rightarrow> point list \<Rightarrow> bool" where
  "pt_in_convex pt hl =
     (if hl = [] \<or> length hl < 3 then False else sign_scan pt (hull_edges hl) None)"

text \<open>\<open>directed_hausdorff_outside(a, hull)\<close>.\<close>

definition directed_hausdorff_outside :: "point list \<Rightarrow> point list \<Rightarrow> real" where
  "directed_hausdorff_outside a hl =
     (if a = [] \<or> hl = [] then 0
      else let outside_pts = filter (\<lambda>p. \<not> pt_in_convex p hl) a
           in if outside_pts = [] then 0 else directed_hausdorff outside_pts hl)"

section \<open>Tendon grouping (lib/revit_backend/grouping.py)\<close>

text \<open>
  The host application's vector type \<open>DB.XYZ\<close>, with the two operations the module
  uses: subtraction and \<open>DotProduct\<close>.
\<close>

record xyz =
  X :: real
  Y :: real
  Z :: real

definition xyz_sub :: "xyz \<Rightarrow> xyz \<Rightarrow> xyz" where
  "xyz_sub a b = \<lparr>X = X a - X b, Y = Y a - Y b, Z = Z a - Z b\<rparr>"

definition DotProduct :: "xyz \<Rightarrow> xyz \<Rightarrow> real" where
  "DotProduct a b = X a * X b + Y a * Y b + Z a * Z b"

text \<open>
  The duck-typed surface of a tendon that \<open>group_tendons\<close> reads: \<open>start\<close>,
  \<open>end\<close>, \<open>length\<close> (\<open>getattr(t, "length", None)\<close>, so it may be absent)
  and \<open>tendon_points\<close>, a list of \<open>[distance_ft, height_mm]\<close>.  \<open>ID\<close> is
  carried along untouched.
\<close>

record tendon =
  ID :: int
  start_pt :: xyz
  end_pt :: xyz
  length_ft :: "real option"
  tendon_points :: "(real \<times> int) list"

text \<open>The keyword arguments of \<open>group_tendons\<close>.\<close>

record tolerances =
  angle_tol :: real
  length_tol :: real
  dist_tol :: real
  height_tol :: real
  spacing_tol :: real
  shift_tol :: real

text \<open>The defaults of the signature of \<open>group_tendons\<close>.\<close>

definition default_tolerances :: tolerances where
  "default_tolerances =
     \<lparr>angle_tol = 5, length_tol = 1 / 2, dist_tol = 1 / 2, height_tol = 5,
      spacing_tol = 5, shift_tol = 2\<rparr>"

text \<open>\<open>(vec.X ** 2 + vec.Y ** 2 + vec.Z ** 2) ** 0.5\<close>.\<close>

definition magnitude :: "xyz \<Rightarrow> real" where
  "magnitude vec = sqrt ((X vec)\<^sup>2 + (Y vec)\<^sup>2 + (Z vec)\<^sup>2)"

text \<open>\<open>_direction(vec)\<close>.\<close>

definition direction :: "xyz \<Rightarrow> xyz" where
  "direction vec =
     (let mag = magnitude vec
      in if mag = 0 then vec else \<lparr>X = X vec / mag, Y = Y vec / mag, Z = Z vec / mag\<rparr>)"

text \<open>\<open>_angle_between(v1, v2)\<close>, in degrees.\<close>

definition degrees :: "real \<Rightarrow> real" where
  "degrees r = r * 180 / pi"

definition angle_between :: "xyz \<Rightarrow> xyz \<Rightarrow> real" where
  "angle_between v1 v2 =
     (let v1n = direction v1; v2n = direction v2;
          dot = max (- 1) (min 1 (DotProduct v1n v2n))
      in degrees (arccos dot))"

text \<open>\<open>_profiles_match(p1, p2, dist_tol, height_tol)\<close>.\<close>

fun profile_pairs_match :: "((real \<times> int) \<times> (real \<times> int)) list \<Rightarrow> real \<Rightarrow> real \<Rightarrow> bool" where
  "profile_pairs_match [] dtol htol = True"
| "profile_pairs_match (((d1, h1), (d2, h2)) # rest) dtol htol =
     (if \<bar>d1 - d2\<bar> > dtol then False
      else if real_of_int \<bar>h1 - h2\<bar> > htol then False
      else profile_pairs_match rest dtol htol)"

definition profiles_match :: "(real \<times> int) list \<Rightarrow> (real \<times> int) list \<Rightarrow> real \<Rightarrow> real \<Rightarrow> bool" where
  "profiles_match p1 p2 dtol htol =
     (if length p1 \<noteq> length p2 then False else profile_pairs_match (zip p1 p2) dtol htol)"

text \<open>
  The length that the loop works with (lines 98-100 for the representative, 130-133
  for a candidate): the stored \<open>length\<close>, or the magnitude of \<open>start - end\<close> when
  the stored length is absent or zero.
\<close>

definition effective_length :: "tendon \<Rightarrow> real" where
  "effective_length t =
     (case length_ft t of
        None \<Rightarrow> magnitude (xyz_sub (start_pt t) (end_pt t))
      | Some l \<Rightarrow> if l = 0 then magnitude (xyz_sub (start_pt t) (end_pt t)) else l)"

text \<open>
  The two quantities of the plan spacing check (lines 119-127), for a representative
  \<open>base\<close> and a candidate \<open>other\<close>: \<open>offset\<close> is compared with
  \<open>spacing_tol\<close>, \<open>shift\<close> with \<open>shift_tol\<close>.
\<close>

definition plan_offset :: "tendon \<Rightarrow> tendon \<Rightarrow> real" where
  "plan_offset base other =
     (let base_dir = xyz_sub (start_pt base) (end_pt base);
          base_len = effective_length base;
          diff_start = xyz_sub (start_pt other) (start_pt base)
      in \<bar>X diff_start * Y base_dir - Y diff_start * X base_dir\<bar> / base_len)"

definition plan_shift :: "tendon \<Rightarrow> tendon \<Rightarrow> real" where
  "plan_shift base other =
     (let base_dir = xyz_sub (start_pt base) (end_pt base);
          base_len = effective_length base;
          diff_start = xyz_sub (start_pt other) (start_pt base)
      in \<bar>X diff_start * X base_dir + Y diff_start * Y base_dir\<bar> / base_len)"

text \<open>
  The body of the \<open>for other in list(ungrouped)\<close> loop up to its last
  \<open>continue\<close>: true when \<open>other\<close> passes the four checks against \<open>base\<close>.
\<close>

definition same_group :: "tolerances \<Rightarrow> tendon \<Rightarrow> tendon \<Rightarrow> bool" where
  "same_group tol base other =
     (let base_dir = xyz_sub (start_pt base) (end_pt base);
          ang0 = angle_between base_dir (xyz_sub (start_pt other) (end_pt other));
          ang = (if ang0 > 90 then 180 - ang0 else ang0)
      in if ang > angle_tol tol then False
         else if plan_offset base other > spacing_tol tol then False
         else if plan_shift base other > shift_tol tol then False
         else if \<bar>effective_length base - effective_length other\<bar> > length_tol tol then False
         else if \<not> profiles_match (tendon_points base) (tendon_points other)
                     (dist_tol tol) (height_tol tol) then False
         else True)"

text \<open>
  The \<open>for other in list(ungrouped)\<close> loop: it runs over a copy of \<open>ungrouped\<close>
  and carries \<open>(ungrouped, group)\<close>; a candidate that passes is removed from
  \<open>ungrouped\<close> (\<open>list.remove\<close> takes out the first occurrence) and appended to
  \<open>group\<close>.
\<close>

fun scan_others :: "tolerances \<Rightarrow> tendon \<Rightarrow> tendon list \<Rightarrow> tendon list \<times> tendon list \<Rightarrow> tendon list \<times> tendon list" where
  "scan_others tol base [] (ungrouped, grp) = (ungrouped, grp)"
| "scan_others tol base (other # rest) (ungrouped, grp) =
     (if same_group tol base other
      then scan_others tol base rest (remove1 other ungrouped, grp @ [other])
      else scan_others tol base rest (ungrouped, grp))"

lemma scan_others_length:
  "length (fst (scan_others tol base others (ungrouped, grp))) \<le> length ungrouped"
proof (induction others arbitrary: ungrouped grp)
  case Nil
  show ?case by simp
next
  case (Cons other rest)
  have "length (remove1 other ungrouped) \<le> length ungrouped"
    by (cases "other \<in> set ungrouped") (simp_all add: length_remove1 remove1_idem)
  moreover have "length (fst (scan_others tol base rest (remove1 other ungrouped, grp @ [other])))
                   \<le> length (remove1 other ungrouped)"
    by (rule Cons.IH)
  moreover have "length (fst (scan_others tol base rest (ungrouped, grp))) \<le> length ungrouped"
    by (rule Cons.IH)
  ultimately show ?case by simp
qed

text \<open>
  The \<open>while ungrouped\<close> loop: \<open>base = ungrouped.pop(0)\<close>; a representative whose
  effective length is zero is skipped by \<open>continue\<close> and enters no group.
\<close>

function group_loop :: "tolerances \<Rightarrow> tendon list \<Rightarrow> tendon list list \<Rightarrow> tendon list list" where
  "group_loop tol [] groups = groups"
| "group_loop tol (base # ungrouped) groups =
     (if effective_length base = 0 then group_loop tol ungrouped groups
      else group_loop tol (fst (scan_others tol base ungrouped (ungrouped, [base])))
             (groups @ [snd (scan_others tol base ungrouped (ungrouped, [base]))]))"
  by pat_completeness auto
termination
proof (relation "measure (\<lambda>(tol, ungrouped, groups). length ungrouped)")
  show "wf (measure (\<lambda>(tol, ungrouped, groups). length ungrouped))" by simp
next
  fix tol :: tolerances and base :: tendon and ungrouped :: "tendon list" and groups :: "tendon list list"
  show "((tol, ungrouped, groups), (tol, base # ungrouped, groups))
          \<in> measure (\<lambda>(tol, ungrouped, groups). length ungrouped)"
    by simp
next
  fix tol :: tolerances and base :: tendon and ungrouped :: "tendon list" and groups :: "tendon list list"
  have "length (fst (scan_others tol base ungrouped (ungrouped, [base]))) \<le> length ungrouped"
    by (rule scan_others_length)
  then show "((tol, fst (scan_others tol base ungrouped (ungrouped, [base])),
           groups @ [snd (scan_others tol base ungrouped (ungrouped, [base]))]),
          (tol, base # ungrouped, groups))
          \<in> measure (\<lambda>(tol, ungrouped, groups). length ungrouped)"
    by simp
qed

text \<open>\<open>group_tendons(tendons, **tolerances)\<close>.\<close>

definition group_tendons :: "tendon list \<Rightarrow> tolerances \<Rightarrow> tendon list list" where
  "group_tendons tendons tol = group_loop tol tendons []"

text \<open>
  A tendon as \<open>_convert_td\<close> of the adapter builds it from a parsed record: end
  points in the plan (\<open>Z = 0\<close>), the stored length taken from the export's
  \<open>Length\<close> line, here without profile points.
\<close>

definition plan_tendon :: "int \<Rightarrow> point \<Rightarrow> point \<Rightarrow> real \<Rightarrow> tendon" where
  "plan_tendon i s e l =
     \<lparr>ID = i, start_pt = \<lparr>X = fst s, Y = snd s, Z = 0\<rparr>, end_pt = \<lparr>X = fst e, Y = snd e, Z = 0\<rparr>,
      length_ft = Some l, tendon_points = []\<rparr>"

text \<open>
  The geometric quantities that the comments of the plan spacing check name: the
  foot of the perpendicular from \<open>p\<close> onto the line through \<open>a\<close> and \<open>b\<close>, the
  distance from \<open>p\<close> to that foot (the perpendicular offset), and the distance from
  \<open>a\<close> to that foot (the length of the projection of \<open>p - a\<close> on the axis).
\<close>

definition plan :: "xyz \<Rightarrow> point" where
  "plan v = (X v, Y v)"

definition foot_on_axis :: "point \<Rightarrow> point \<Rightarrow> point \<Rightarrow> point" where
  "foot_on_axis p a b =
     (let t = ((fst p - fst a) * (fst b - fst a) + (snd p - snd a) * (snd b - snd a)) /
              ((fst b - fst a)\<^sup>2 + (snd b - snd a)\<^sup>2)
      in (fst a + t * (fst b - fst a), snd a + t * (snd b - snd a)))"

definition perpendicular_distance :: "point \<Rightarrow> point \<Rightarrow> point \<Rightarrow> real" where
  "perpendicular_distance p a b = point_distance p (foot_on_axis p a b)"

definition longitudinal_projection :: "point \<Rightarrow> point \<Rightarrow> point \<Rightarrow> real" where
  "longitudinal_projection p a b = point_distance a (foot_on_axis p a b)"

subsection \<open>The groups and the input\<close>

lemma scan_others_mset:
  "mset others \<subseteq># mset ungrouped \<Longrightarrow>
   mset (fst (scan_others tol base others (ungrouped, grp))) +
   mset (snd (scan_others tol base others (ungrouped, grp))) = mset ungrouped + mset grp"
proof (induction others arbitrary: ungrouped grp)
  case Nil
  show ?case by simp
next
  case (Cons other rest)
  show ?case
  proof (cases "same_group tol base other")
    case True
    from Cons.prems have mem: "other \<in># mset ungrouped"
      by (simp add: insert_subset_eq_iff)
    from Cons.prems have "mset rest \<subseteq># mset (remove1 other ungrouped)"
      by (simp add: insert_subset_eq_iff)
    then have "mset (fst (scan_others tol base rest (remove1 other ungrouped, grp @ [other]))) +
          mset (snd (scan_others tol base rest (remove1 other ungrouped, grp @ [other])))
          = mset (remove1 other ungrouped) + mset (grp @ [other])"
      by (rule Cons.IH)
    also have "\<dots> = mset ungrouped + mset grp"
      using mem by simp
    finally show ?thesis using True by simp
  next
    case False
    have "mset rest \<subseteq># mset (other # rest)" by simp
    then have "mset rest \<subseteq># mset ungrouped"
      using Cons.prems by (rule subset_mset.order_trans)
    then show ?thesis using False Cons.IH by simp
  qed
qed

text \<open>
  What the outer loop loses: a multiset \<open>D\<close> of input tendons, each of effective
  length zero.
\<close>

lemma group_loop_mset:
  "\<exists>D. mset (concat (group_loop tol ts gs)) + D = mset (concat gs) + mset ts \<and>
       (\<forall>t\<in>#D. t \<in> set ts \<and> effective_length t = 0)"
proof (induction tol ts gs rule: group_loop.induct)
  case (1 tol groups)
  show ?case by simp
next
  case (2 tol base ungrouped groups)
  show ?case
  proof (cases "effective_length base = 0")
    case True
    with 2 obtain D where
      D: "mset (concat (group_loop tol ungrouped groups)) + D = mset (concat groups) + mset ungrouped"
        "\<forall>t\<in>#D. t \<in> set ungrouped \<and> effective_length t = 0"
      by blast
    have "mset (concat (group_loop tol (base # ungrouped) groups)) + add_mset base D
            = mset (concat groups) + mset (base # ungrouped)"
      using True D(1) by simp
    moreover have "\<forall>t\<in>#add_mset base D. t \<in> set (base # ungrouped) \<and> effective_length t = 0"
      using True D(2) by auto
    ultimately show ?thesis by blast
  next
    case False
    let ?r = "scan_others tol base ungrouped (ungrouped, [base])"
    from False 2 obtain D where
      D: "mset (concat (group_loop tol (fst ?r) (groups @ [snd ?r]))) + D
            = mset (concat (groups @ [snd ?r])) + mset (fst ?r)"
        "\<forall>t\<in>#D. t \<in> set (fst ?r) \<and> effective_length t = 0"
      by blast
    have sm: "mset (fst ?r) + mset (snd ?r) = mset ungrouped + mset [base]"
      by (rule scan_others_mset) simp
    then have "set_mset (mset (fst ?r)) \<subseteq> set_mset (mset ungrouped + mset [base])"
      by (metis mset_subset_eq_add_left set_mset_mono)
    then have sub: "set (fst ?r) \<subseteq> set (base # ungrouped)" by auto
    have "mset (concat (group_loop tol (base # ungrouped) groups)) + D
            = mset (concat groups) + mset (base # ungrouped)"
      using False D(1) sm by (simp add: ac_simps)
    moreover have "\<forall>t\<in>#D. t \<in> set (base # ungrouped) \<and> effective_length t = 0"
      using D(2) sub by blast
    ultimately show ?thesis by blast
  qed
qed

text \<open>
  C1, as stated, fails: a tendon whose stored length is zero and whose start and end
  points coincide is skipped when it comes up as the representative, and is in no
  returned group.
\<close>

theorem group_tendons_drops_degenerate:
  "mset (concat (group_tendons [plan_tendon 1 (0, 0) (0, 0) 0] default_tolerances))
     \<noteq> mset [plan_tendon 1 (0, 0) (0, 0) 0]"
  by (simp add: group_tendons_def plan_tendon_def effective_length_def magnitude_def xyz_sub_def)

text \<open>
  C1, amended.  For every input sequence and all tolerances, the concatenation of the
  returned groups is, as a multiset, contained in the input; every tendon of the input
  that is missing from the groups has effective length zero (stored length zero or
  absent, and coinciding end points); and when no tendon of the input has effective
  length zero the groups hold exactly the tendons of the input, each once.
\<close>

theorem group_tendons_partition_up_to_degenerate:
  "mset (concat (group_tendons ts tol)) \<subseteq># mset ts \<and>
   (\<forall>t\<in>#mset ts - mset (concat (group_tendons ts tol)). effective_length t = 0) \<and>
   ((\<forall>t\<in>set ts. effective_length t \<noteq> 0) \<longrightarrow> mset (concat (group_tendons ts tol)) = mset ts)"
proof -
  from group_loop_mset [of tol ts "[]"] obtain D where
    D: "mset (concat (group_tendons ts tol)) + D = mset ts"
    and deg: "\<forall>t\<in>#D. t \<in> set ts \<and> effective_length t = 0"
    by (auto simp: group_tendons_def)
  from D have sub: "mset (concat (group_tendons ts tol)) \<subseteq># mset ts"
    by (metis mset_subset_eq_add_left)
  from D have diff: "mset ts - mset (concat (group_tendons ts tol)) = D"
    by (metis add_diff_cancel_left')
  have "(\<forall>t\<in>set ts. effective_length t \<noteq> 0) \<longrightarrow> D = {#}"
    using deg by (metis multiset_nonemptyE)
  with D have "(\<forall>t\<in>set ts. effective_length t \<noteq> 0) \<longrightarrow>
      mset (concat (group_tendons ts tol)) = mset ts"
    by auto
  with sub diff deg show ?thesis by simp
qed

lemma same_group_parallel_example:
  "same_group default_tolerances (plan_tendon 2 (0, 0) (10, 0) 10) (plan_tendon 3 (0, 1) (10, 1) 10)"
  by (simp add: same_group_def plan_tendon_def default_tolerances_def angle_between_def
      direction_def magnitude_def xyz_sub_def DotProduct_def plan_offset_def plan_shift_def
      effective_length_def profiles_match_def degrees_def Let_def)

theorem group_tendons_partition_witness:
  "effective_length (plan_tendon 2 (0, 0) (10, 0) 10) \<noteq> 0 \<and>
   effective_length (plan_tendon 3 (0, 1) (10, 1) 10) \<noteq> 0 \<and>
   group_tendons [plan_tendon 2 (0, 0) (10, 0) 10, plan_tendon 3 (0, 1) (10, 1) 10]
     default_tolerances
     = [[plan_tendon 2 (0, 0) (10, 0) 10, plan_tendon 3 (0, 1) (10, 1) 10]] \<and>
   mset (concat (group_tendons [plan_tendon 2 (0, 0) (10, 0) 10, plan_tendon 3 (0, 1) (10, 1) 10]
     default_tolerances))
     = mset [plan_tendon 2 (0, 0) (10, 0) 10, plan_tendon 3 (0, 1) (10, 1) 10] \<and>
   plan_tendon 1 (0, 0) (0, 0) 0
     \<in># mset [plan_tendon 1 (0, 0) (0, 0) 0]
          - mset (concat (group_tendons [plan_tendon 1 (0, 0) (0, 0) 0] default_tolerances)) \<and>
   effective_length (plan_tendon 1 (0, 0) (0, 0) 0) = 0"
proof -
  have e2: "effective_length (plan_tendon 2 (0, 0) (10, 0) 10) \<noteq> 0"
    and e3: "effective_length (plan_tendon 3 (0, 1) (10, 1) 10) \<noteq> 0"
    by (simp_all add: effective_length_def plan_tendon_def)
  have g: "group_tendons [plan_tendon 2 (0, 0) (10, 0) 10, plan_tendon 3 (0, 1) (10, 1) 10]
     default_tolerances
     = [[plan_tendon 2 (0, 0) (10, 0) 10, plan_tendon 3 (0, 1) (10, 1) 10]]"
    using e2 by (simp add: group_tendons_def same_group_parallel_example)
  have d: "plan_tendon 1 (0, 0) (0, 0) 0
     \<in># mset [plan_tendon 1 (0, 0) (0, 0) 0]
          - mset (concat (group_tendons [plan_tendon 1 (0, 0) (0, 0) 0] default_tolerances))"
    by (simp add: group_tendons_def plan_tendon_def effective_length_def magnitude_def xyz_sub_def)
  from group_tendons_partition_up_to_degenerate
         [of "[plan_tendon 2 (0, 0) (10, 0) 10, plan_tendon 3 (0, 1) (10, 1) 10]" default_tolerances]
       e2 e3
  have p: "mset (concat (group_tendons [plan_tendon 2 (0, 0) (10, 0) 10, plan_tendon 3 (0, 1) (10, 1) 10]
     default_tolerances))
     = mset [plan_tendon 2 (0, 0) (10, 0) 10, plan_tendon 3 (0, 1) (10, 1) 10]"
    by simp
  from group_tendons_partition_up_to_degenerate
         [of "[plan_tendon 1 (0, 0) (0, 0) 0]" default_tolerances] d
  have z: "effective_length (plan_tendon 1 (0, 0) (0, 0) 0) = 0"
    by blast
  from e2 e3 g p d z show ?thesis by blast
qed

subsection \<open>The plan spacing quantities\<close>

lemma foot_sq_perp:
  fixes ux uy dx dy :: real
  assumes "ux\<^sup>2 + uy\<^sup>2 \<noteq> 0"
  shows "(dx - (dx * ux + dy * uy) / (ux\<^sup>2 + uy\<^sup>2) * ux)\<^sup>2 +
         (dy - (dx * ux + dy * uy) / (ux\<^sup>2 + uy\<^sup>2) * uy)\<^sup>2
         = (dx * uy - dy * ux)\<^sup>2 / (ux\<^sup>2 + uy\<^sup>2)"
proof -
  define L where "L = ux\<^sup>2 + uy\<^sup>2"
  define s where "s = dx * ux + dy * uy"
  have L: "L \<noteq> 0" using assms by (simp add: L_def)
  have "(dx - s / L * ux)\<^sup>2 + (dy - s / L * uy)\<^sup>2
        = ((dx * L - s * ux)\<^sup>2 + (dy * L - s * uy)\<^sup>2) / L\<^sup>2"
    using L by (simp add: field_simps power2_eq_square)
  also have "(dx * L - s * ux)\<^sup>2 + (dy * L - s * uy)\<^sup>2 = L * (dx * uy - dy * ux)\<^sup>2"
    unfolding L_def s_def by (simp add: power2_eq_square algebra_simps)
  also have "L * (dx * uy - dy * ux)\<^sup>2 / L\<^sup>2 = (dx * uy - dy * ux)\<^sup>2 / L"
    using L by (simp add: power2_eq_square)
  finally show ?thesis by (simp add: L_def s_def)
qed

lemma foot_sq_along:
  fixes ux uy dx dy :: real
  assumes "ux\<^sup>2 + uy\<^sup>2 \<noteq> 0"
  shows "((dx * ux + dy * uy) / (ux\<^sup>2 + uy\<^sup>2) * ux)\<^sup>2 +
         ((dx * ux + dy * uy) / (ux\<^sup>2 + uy\<^sup>2) * uy)\<^sup>2
         = (dx * ux + dy * uy)\<^sup>2 / (ux\<^sup>2 + uy\<^sup>2)"
proof -
  define L where "L = ux\<^sup>2 + uy\<^sup>2"
  define s where "s = dx * ux + dy * uy"
  have L: "L \<noteq> 0" using assms by (simp add: L_def)
  have "(s / L * ux)\<^sup>2 + (s / L * uy)\<^sup>2 = s\<^sup>2 * (ux\<^sup>2 + uy\<^sup>2) / L\<^sup>2"
    using L by (simp add: field_simps power2_eq_square)
  also have "\<dots> = s\<^sup>2 / L"
    using L unfolding L_def [symmetric] by (simp add: power2_eq_square)
  finally show ?thesis by (simp add: L_def s_def)
qed

text \<open>The two reference quantities in closed form.\<close>

lemma distance_to_axis:
  assumes "a \<noteq> b"
  shows "perpendicular_distance p a b = \<bar>cross a b p\<bar> / point_distance a b"
    and "longitudinal_projection p a b =
           \<bar>(fst p - fst a) * (fst b - fst a) + (snd p - snd a) * (snd b - snd a)\<bar>
             / point_distance a b"
proof -
  define ux where "ux = fst b - fst a"
  define uy where "uy = snd b - snd a"
  define dx where "dx = fst p - fst a"
  define dy where "dy = snd p - snd a"
  define T where "T = (dx * ux + dy * uy) / (ux\<^sup>2 + uy\<^sup>2)"
  have "ux \<noteq> 0 \<or> uy \<noteq> 0" using assms by (auto simp: ux_def uy_def prod_eq_iff)
  then have L: "ux\<^sup>2 + uy\<^sup>2 \<noteq> 0" by auto
  have foot: "foot_on_axis p a b = (fst a + T * ux, snd a + T * uy)"
    by (simp add: foot_on_axis_def Let_def T_def ux_def uy_def dx_def dy_def)
  have len: "point_distance a b = sqrt (ux\<^sup>2 + uy\<^sup>2)"
    by (simp add: point_distance_def Let_def ux_def uy_def power2_eq_square)
       (simp add: algebra_simps)
  have e1: "fst p - (fst a + T * ux) = dx - T * ux" by (simp add: dx_def)
  have e2: "snd p - (snd a + T * uy) = dy - T * uy" by (simp add: dy_def)
  have "perpendicular_distance p a b = sqrt ((dx - T * ux)\<^sup>2 + (dy - T * uy)\<^sup>2)"
    unfolding perpendicular_distance_def foot point_distance_def Let_def fst_conv snd_conv e1 e2
    by (simp add: power2_eq_square)
  also have "\<dots> = sqrt ((dx * uy - dy * ux)\<^sup>2 / (ux\<^sup>2 + uy\<^sup>2))"
    unfolding T_def by (rule arg_cong [where f = sqrt]) (rule foot_sq_perp [OF L])
  also have "\<dots> = \<bar>dx * uy - dy * ux\<bar> / sqrt (ux\<^sup>2 + uy\<^sup>2)"
    by (simp add: real_sqrt_divide)
  also have "\<bar>dx * uy - dy * ux\<bar> = \<bar>cross a b p\<bar>"
    by (simp add: cross_def ux_def uy_def dx_def dy_def abs_minus_commute algebra_simps)
  finally show "perpendicular_distance p a b = \<bar>cross a b p\<bar> / point_distance a b"
    by (simp add: len)
  have "longitudinal_projection p a b = sqrt ((T * ux)\<^sup>2 + (T * uy)\<^sup>2)"
    unfolding longitudinal_projection_def foot point_distance_def Let_def fst_conv snd_conv
    by (simp add: power2_eq_square)
  also have "\<dots> = sqrt ((dx * ux + dy * uy)\<^sup>2 / (ux\<^sup>2 + uy\<^sup>2))"
    unfolding T_def by (rule arg_cong [where f = sqrt]) (rule foot_sq_along [OF L])
  also have "\<dots> = \<bar>dx * ux + dy * uy\<bar> / sqrt (ux\<^sup>2 + uy\<^sup>2)"
    by (simp add: real_sqrt_divide)
  finally show "longitudinal_projection p a b =
           \<bar>(fst p - fst a) * (fst b - fst a) + (snd p - snd a) * (snd b - snd a)\<bar>
             / point_distance a b"
    by (simp add: len dx_def dy_def ux_def uy_def)
qed

text \<open>
  When the length the loop works with is the plan distance between the end points of
  the representative, the two compared quantities are the perpendicular offset and
  the length of the projection on the axis.
\<close>

lemma plan_offset_of_plan_length:
  assumes len: "effective_length base = point_distance (plan (start_pt base)) (plan (end_pt base))"
    and ne: "plan (start_pt base) \<noteq> plan (end_pt base)"
  shows "plan_offset base other =
           perpendicular_distance (plan (start_pt other)) (plan (start_pt base)) (plan (end_pt base)) \<and>
         plan_shift base other =
           longitudinal_projection (plan (start_pt other)) (plan (start_pt base)) (plan (end_pt base))"
proof -
  have "\<bar>X (xyz_sub (start_pt other) (start_pt base)) * Y (xyz_sub (start_pt base) (end_pt base)) -
         Y (xyz_sub (start_pt other) (start_pt base)) * X (xyz_sub (start_pt base) (end_pt base))\<bar>
        = \<bar>cross (plan (start_pt base)) (plan (end_pt base)) (plan (start_pt other))\<bar>"
    by (simp add: xyz_sub_def cross_def plan_def abs_minus_commute algebra_simps)
  then have "plan_offset base other =
      \<bar>cross (plan (start_pt base)) (plan (end_pt base)) (plan (start_pt other))\<bar> /
        point_distance (plan (start_pt base)) (plan (end_pt base))"
    by (simp add: plan_offset_def Let_def len)
  moreover have "\<bar>X (xyz_sub (start_pt other) (start_pt base)) * X (xyz_sub (start_pt base) (end_pt base)) +
         Y (xyz_sub (start_pt other) (start_pt base)) * Y (xyz_sub (start_pt base) (end_pt base))\<bar>
        = \<bar>(fst (plan (start_pt other)) - fst (plan (start_pt base))) *
             (fst (plan (end_pt base)) - fst (plan (start_pt base))) +
           (snd (plan (start_pt other)) - snd (plan (start_pt base))) *
             (snd (plan (end_pt base)) - snd (plan (start_pt base)))\<bar>"
    (is "\<bar>?l\<bar> = \<bar>?r\<bar>")
  proof -
    have "?l = - ?r" by (simp add: xyz_sub_def plan_def algebra_simps)
    then show ?thesis by simp
  qed
  then have "plan_shift base other =
      \<bar>(fst (plan (start_pt other)) - fst (plan (start_pt base))) *
             (fst (plan (end_pt base)) - fst (plan (start_pt base))) +
           (snd (plan (start_pt other)) - snd (plan (start_pt base))) *
             (snd (plan (end_pt base)) - snd (plan (start_pt base)))\<bar> /
        point_distance (plan (start_pt base)) (plan (end_pt base))"
    by (simp add: plan_shift_def Let_def len)
  ultimately show ?thesis using distance_to_axis [OF ne] by simp
qed

text \<open>
  C5.  The code divides the cross and dot products by the stored \<open>length\<close> of the
  representative, not by the plan distance between its end points.  For a
  representative from \<open>(0, 0)\<close> to \<open>(10, 0)\<close> with stored length 5 and a candidate
  starting at \<open>(2, 1)\<close>, the quantity compared with \<open>spacing_tol\<close> is 2 where the
  perpendicular distance is 1, and the quantity compared with \<open>shift_tol\<close> is 4
  where the projection on the axis has length 2.
\<close>

theorem plan_offset_scaled_by_stored_length:
  "plan_offset (plan_tendon 1 (0, 0) (10, 0) 5) (plan_tendon 2 (2, 1) (12, 1) 5) = 2 \<and>
   perpendicular_distance (2, 1) (0, 0) (10, 0) = 1 \<and>
   plan_shift (plan_tendon 1 (0, 0) (10, 0) 5) (plan_tendon 2 (2, 1) (12, 1) 5) = 4 \<and>
   longitudinal_projection (2, 1) (0, 0) (10, 0) = 2"
  by (simp add: plan_offset_def plan_shift_def effective_length_def xyz_sub_def plan_tendon_def
      perpendicular_distance_def longitudinal_projection_def foot_on_axis_def point_distance_def
      Let_def power2_eq_square)

section \<open>Properties of the Hausdorff distances\<close>

lemma dh_step_ge: "m \<le> dh_step b m pa"
  by (simp add: dh_step_def Let_def)

lemma dh_step_mono: "m \<le> m' \<Longrightarrow> dh_step b m pa \<le> dh_step b m' pa"
  by (simp add: dh_step_def Let_def)

lemma dh_loop_ge: "m \<le> foldl (dh_step b) m a"
proof (induction a arbitrary: m)
  case Nil
  show ?case by simp
next
  case (Cons pa a)
  have "m \<le> dh_step b m pa" by (rule dh_step_ge)
  also have "\<dots> \<le> foldl (dh_step b) (dh_step b m pa) a" by (rule Cons.IH)
  finally show ?case by simp
qed

lemma dh_loop_mono: "m \<le> m' \<Longrightarrow> foldl (dh_step b) m a \<le> foldl (dh_step b) m' a"
proof (induction a arbitrary: m m')
  case Nil
  then show ?case by simp
next
  case (Cons pa a)
  from Cons.prems have "dh_step b m pa \<le> dh_step b m' pa" by (rule dh_step_mono)
  then show ?case using Cons.IH by simp
qed

lemma dh_loop_filter: "foldl (dh_step b) m (filter P a) \<le> foldl (dh_step b) m a"
proof (induction a arbitrary: m)
  case Nil
  show ?case by simp
next
  case (Cons pa a)
  show ?case
  proof (cases "P pa")
    case True
    then show ?thesis using Cons.IH by simp
  next
    case False
    have "foldl (dh_step b) m (filter P a) \<le> foldl (dh_step b) m a" by (rule Cons.IH)
    also have "\<dots> \<le> foldl (dh_step b) (dh_step b m pa) a"
      by (rule dh_loop_mono) (rule dh_step_ge)
    finally show ?thesis using False by simp
  qed
qed

lemma directed_hausdorff_nonneg: "0 \<le> directed_hausdorff a b"
  by (simp add: directed_hausdorff_def dh_loop_ge)

lemma point_distance_nonneg: "0 \<le> point_distance pa pb"
  by (simp add: point_distance_def Let_def)

lemma point_distance_self: "point_distance pa pa = 0"
  by (simp add: point_distance_def)

lemma foldl_min_le_start: "foldl min (x::real) xs \<le> x"
proof (induction xs arbitrary: x)
  case Nil
  show ?case by simp
next
  case (Cons y ys)
  have "foldl min (min x y) ys \<le> min x y" by (rule Cons.IH)
  then show ?case by simp
qed

lemma foldl_min_le_elem: "y \<in> set xs \<Longrightarrow> foldl min (x::real) xs \<le> y"
proof (induction xs arbitrary: x)
  case Nil
  then show ?case by simp
next
  case (Cons z zs)
  show ?case
  proof (cases "y = z")
    case True
    have "foldl min (min x z) zs \<le> min x z" by (rule foldl_min_le_start)
    then show ?thesis using True by simp
  next
    case False
    with Cons.prems have "y \<in> set zs" by simp
    then show ?thesis using Cons.IH by simp
  qed
qed

lemma foldl_min_lower: "c \<le> x \<Longrightarrow> \<forall>y\<in>set xs. c \<le> y \<Longrightarrow> c \<le> foldl min (x::real) xs"
  by (induction xs arbitrary: x) auto

lemma py_min_le_elem: "y \<in> set xs \<Longrightarrow> py_min xs \<le> y"
proof (cases xs)
  case Nil
  assume "y \<in> set xs"
  with Nil show ?thesis by simp
next
  case (Cons x xs')
  assume "y \<in> set xs"
  with Cons have "y = x \<or> y \<in> set xs'" by simp
  then show ?thesis
    using Cons foldl_min_le_start [of x xs'] foldl_min_le_elem [of y xs' x] by auto
qed

lemma py_min_lower: "\<forall>y\<in>set xs. c \<le> y \<Longrightarrow> c \<le> 0 \<Longrightarrow> c \<le> py_min xs"
  by (cases xs) (auto intro: foldl_min_lower)

lemma min_distance_self: "pa \<in> set a \<Longrightarrow> py_min (map (point_distance pa) a) = 0"
proof -
  assume mem: "pa \<in> set a"
  then have "point_distance pa pa \<in> set (map (point_distance pa) a)" by simp
  then have "py_min (map (point_distance pa) a) \<le> point_distance pa pa"
    by (rule py_min_le_elem)
  moreover have "0 \<le> py_min (map (point_distance pa) a)"
    by (rule py_min_lower) (auto simp: point_distance_nonneg)
  ultimately show ?thesis by (simp add: point_distance_self)
qed

lemma dh_loop_self: "set a \<subseteq> set b \<Longrightarrow> foldl (dh_step b) 0 a = 0"
proof (induction a)
  case Nil
  show ?case by simp
next
  case (Cons pa a)
  then have "pa \<in> set b" by simp
  then have "dh_step b 0 pa = 0" by (simp add: dh_step_def min_distance_self)
  then show ?case using Cons by simp
qed

text \<open>
  C8.  The symmetric Hausdorff distance does not depend on the order of its two
  arguments, and the directed Hausdorff distance from a point list to itself is 0.
  Both hold for every pair of lists, the empty ones included.
\<close>

theorem hausdorff_symmetric_and_self_zero:
  "hausdorff_distance a b = hausdorff_distance b a \<and> directed_hausdorff a a = 0"
  by (simp add: hausdorff_distance_def max.commute directed_hausdorff_def dh_loop_self)

text \<open>
  C10.  Restricting \<open>a\<close> to the points classified as outside the hull never increases
  the directed Hausdorff distance, and the restricted distance is 0 when
  \<open>pt_in_convex\<close> classifies no point of \<open>a\<close> as outside.
\<close>

theorem directed_hausdorff_outside_le:
  "directed_hausdorff_outside a h \<le> directed_hausdorff a h \<and>
   ((\<forall>p\<in>set a. pt_in_convex p h) \<longrightarrow> directed_hausdorff_outside a h = 0)"
proof
  show "directed_hausdorff_outside a h \<le> directed_hausdorff a h"
  proof (cases "a = [] \<or> h = [] \<or> filter (\<lambda>p. \<not> pt_in_convex p h) a = []")
    case True
    then have "directed_hausdorff_outside a h = 0"
      by (auto simp: directed_hausdorff_outside_def Let_def)
    then show ?thesis by (simp add: directed_hausdorff_nonneg)
  next
    case False
    then have "directed_hausdorff_outside a h = foldl (dh_step h) 0 (filter (\<lambda>p. \<not> pt_in_convex p h) a)"
      by (simp add: directed_hausdorff_outside_def Let_def directed_hausdorff_def)
    moreover from False have "directed_hausdorff a h = foldl (dh_step h) 0 a"
      by (simp add: directed_hausdorff_def)
    ultimately show ?thesis by (simp add: dh_loop_filter)
  qed
next
  show "(\<forall>p\<in>set a. pt_in_convex p h) \<longrightarrow> directed_hausdorff_outside a h = 0"
  proof
    assume "\<forall>p\<in>set a. pt_in_convex p h"
    then have "filter (\<lambda>p. \<not> pt_in_convex p h) a = []" by (simp add: filter_empty_conv)
    then show "directed_hausdorff_outside a h = 0"
      by (simp add: directed_hausdorff_outside_def Let_def)
  qed
qed

theorem directed_hausdorff_outside_le_witness:
  "pt_in_convex (1, 1) [(0, 0), (4, 0), (0, 4)] \<and>
   directed_hausdorff_outside [(1, 1)] [(0, 0), (4, 0), (0, 4)] \<le>
     directed_hausdorff [(1, 1)] [(0, 0), (4, 0), (0, 4)] \<and>
   directed_hausdorff_outside [(1, 1)] [(0, 0), (4, 0), (0, 4)] = 0"
proof -
  have inside: "pt_in_convex (1, 1) [(0, 0), (4, 0), (0, 4)]"
    by (simp add: pt_in_convex_def hull_edges_def upt_rec)
  with directed_hausdorff_outside_le [of "[(1, 1)]" "[(0, 0), (4, 0), (0, 4)]"]
  show ?thesis by simp
qed

section \<open>Export parser (lib/ptd_parser)\<close>

subsection \<open>Characters and strings\<close>

text \<open>
  The export is read as text.  A text is a list of characters; the model covers
  ASCII texts, where \<open>\d\<close> is one of the ten digits and \<open>\s\<close> and
  \<open>str.strip\<close> treat the characters 9 to 13, 28 to 31 and 32 as whitespace.
\<close>

definition is_digit :: "char \<Rightarrow> bool" where
  "is_digit c \<longleftrightarrow> c \<in> set ''0123456789''"

definition is_space :: "char \<Rightarrow> bool" where
  "is_space c \<longleftrightarrow>
     c \<in> set [CHR 0x09, CHR 0x0A, CHR 0x0B, CHR 0x0C, CHR 0x0D,
               CHR 0x1C, CHR 0x1D, CHR 0x1E, CHR 0x1F, CHR '' '']"

definition to_lower :: "char \<Rightarrow> char" where
  "to_lower c =
     (case map_of (zip ''ABCDEFGHIJKLMNOPQRSTUVWXYZ'' ''abcdefghijklmnopqrstuvwxyz'') c of
        Some l \<Rightarrow> l | None \<Rightarrow> c)"

text \<open>\<open>s.lower()\<close> and \<open>s.strip()\<close>.\<close>

definition lower :: "string \<Rightarrow> string" where
  "lower s = map to_lower s"

definition strip :: "string \<Rightarrow> string" where
  "strip s = rev (dropWhile is_space (rev (dropWhile is_space s)))"

text \<open>
  \<open>for line in fh\<close> on a file opened in text mode: the text is cut after every
  \<open>\n\<close>, \<open>\r\n\<close> and lone \<open>\r\<close>.  The line terminators are left out here;
  the loop strips every line first.
\<close>

fun split_lines :: "string \<Rightarrow> string \<Rightarrow> string list" where
  "split_lines cur [] = (if cur = [] then [] else [cur])"
| "split_lines cur (c # cs) =
     (if c = CHR 0x0A then cur # split_lines [] cs
      else if c = CHR 0x0D then
        (case cs of
           c' # cs' \<Rightarrow> if c' = CHR 0x0A then cur # split_lines [] cs' else cur # split_lines [] cs
         | [] \<Rightarrow> cur # split_lines [] cs)
      else split_lines (cur @ [c]) cs)"

text \<open>\<open>raw.split(",")\<close>.\<close>

fun split_comma :: "string \<Rightarrow> string \<Rightarrow> string list" where
  "split_comma cur [] = [cur]"
| "split_comma cur (c # cs) =
     (if c = CHR '','' then cur # split_comma [] cs else split_comma (cur @ [c]) cs)"

text \<open>A literal at the head of a string: the rest after it, if it is there.\<close>

fun literal :: "string \<Rightarrow> string \<Rightarrow> string option" where
  "literal [] s = Some s"
| "literal (c # cs) [] = None"
| "literal (c # cs) (d # ds) = (if c = d then literal cs ds else None)"

text \<open>The same under \<open>re.IGNORECASE\<close>; the literal is given in lower case.\<close>

fun literal_ci :: "string \<Rightarrow> string \<Rightarrow> string option" where
  "literal_ci [] s = Some s"
| "literal_ci (c # cs) [] = None"
| "literal_ci (c # cs) (d # ds) = (if c = to_lower d then literal_ci cs ds else None)"

text \<open>\<open>needle in s\<close>, and \<open>re.search\<close> for a literal under \<open>re.IGNORECASE\<close>.\<close>

fun contains :: "string \<Rightarrow> string \<Rightarrow> bool" where
  "contains needle [] = (needle = [])"
| "contains needle (c # cs) = (literal needle (c # cs) \<noteq> None \<or> contains needle cs)"

fun contains_ci :: "string \<Rightarrow> string \<Rightarrow> bool" where
  "contains_ci needle [] = (needle = [])"
| "contains_ci needle (c # cs) = (literal_ci needle (c # cs) \<noteq> None \<or> contains_ci needle cs)"

text \<open>\<open>int(s)\<close> for a string of digits, as \<open>\d+\<close> captures it.\<close>

definition digit_val :: "char \<Rightarrow> nat" where
  "digit_val c = length (takeWhile (\<lambda>d. d \<noteq> c) ''0123456789'')"

definition int_of_digits :: "string \<Rightarrow> int" where
  "int_of_digits s = int (foldl (\<lambda>n c. 10 * n + digit_val c) 0 s)"

subsection \<open>Floats\<close>

text \<open>
  A Python float: a finite binary64 value, kept as the rational number it denotes
  (the sign of zero is not kept), an infinity or NaN.
\<close>

datatype pyfloat = Finite rat | PosInf | NegInf | NaN

datatype py_error = PTDParsingError | ValueError | OverflowError

text \<open>Rounding to the nearest integer, ties to even.\<close>

definition round_half_even :: "rat \<Rightarrow> int" where
  "round_half_even r =
     (let f = \<lfloor>r\<rfloor>; d = r - of_int f
      in if d < 1 / 2 then f else if d > 1 / 2 then f + 1 else if even f then f else f + 1)"

text \<open>For a positive rational \<open>a\<close>, the integer \<open>e\<close> with \<open>2 ^ e \<le> a < 2 ^ (e + 1)\<close>.\<close>

definition floor_log2 :: "rat \<Rightarrow> int" where
  "floor_log2 a =
     (let (n, d) = quotient_of a; e0 = bitlen n - bitlen d
      in if 2 powi e0 \<le> a then e0 else e0 - 1)"

text \<open>
  Rounding of a rational to binary64, to nearest and ties to even: 53 significant
  bits, the least exponent of a unit in the last place is \<open>-1074\<close> (subnormal
  numbers), and a result of magnitude \<open>2 ^ 1024\<close> or more is an infinity.
\<close>

definition round_double :: "rat \<Rightarrow> pyfloat" where
  "round_double q =
     (if q = 0 then Finite 0
      else let a = \<bar>q\<bar>;
               e = max (floor_log2 a - 52) (- 1074);
               v = of_int (round_half_even (a / 2 powi e)) * 2 powi e
           in if v \<ge> 2 ^ 1024 then (if q < 0 then NegInf else PosInf)
              else Finite (if q < 0 then - v else v))"

text \<open>\<open>x * MM_PER_M\<close>, with \<open>MM_PER_M = 1000.0\<close>.\<close>

definition times_mm_per_m :: "pyfloat \<Rightarrow> pyfloat" where
  "times_mm_per_m x = (case x of Finite q \<Rightarrow> round_double (q * 1000) | _ \<Rightarrow> x)"

text \<open>\<open>int(x)\<close> for a float: truncation towards zero.\<close>

definition int_of_float :: "pyfloat \<Rightarrow> py_error + int" where
  "int_of_float x =
     (case x of
        Finite q \<Rightarrow> Inr (if q < 0 then - \<lfloor>- q\<rfloor> else \<lfloor>q\<rfloor>)
      | NaN \<Rightarrow> Inl ValueError
      | _ \<Rightarrow> Inl OverflowError)"

text \<open>
  \<open>float(s)\<close> for a string.  The grammar, after stripping whitespace: an optional
  sign, then \<open>inf\<close>, \<open>infinity\<close> or \<open>nan\<close> in any case, or a decimal number with
  an optional exponent; digits may be grouped by single underscores.  Anything else is
  a \<open>ValueError\<close>.
\<close>

text \<open>A \<open>digitpart\<close> at the head of a string: its digits and the rest.\<close>

fun digitpart_more :: "string \<Rightarrow> string \<Rightarrow> string \<times> string" where
  "digitpart_more acc [] = (acc, [])"
| "digitpart_more acc (c # cs) =
     (if is_digit c then digitpart_more (acc @ [c]) cs
      else if c = CHR ''_'' then
        (case cs of
           d # ds \<Rightarrow> if is_digit d then digitpart_more (acc @ [d]) ds else (acc, c # cs)
         | [] \<Rightarrow> (acc, c # cs))
      else (acc, c # cs))"

definition digitpart :: "string \<Rightarrow> string \<times> string" where
  "digitpart s = (case s of c # cs \<Rightarrow> if is_digit c then digitpart_more [c] cs else ([], s) | [] \<Rightarrow> ([], s))"

text \<open>The exponent, if any: its value and the rest.\<close>

definition exponent_part :: "string \<Rightarrow> (int \<times> string) option" where
  "exponent_part s =
     (case s of
        [] \<Rightarrow> Some (0, [])
      | c # cs \<Rightarrow>
          if c = CHR ''e'' \<or> c = CHR ''E'' then
            (let (neg, ds) = (case cs of
                                d # ds' \<Rightarrow> if d = CHR ''-'' then (True, ds')
                                           else if d = CHR ''+'' then (False, ds') else (False, cs)
                              | [] \<Rightarrow> (False, cs));
                 (digs, rest) = digitpart ds
             in if digs = [] then None
                else Some (if neg then - int_of_digits digs else int_of_digits digs, rest))
          else Some (0, s))"

definition float_number :: "string \<Rightarrow> rat option" where
  "float_number s =
     (let (ip, r1) = digitpart s;
          (fp, r2) = (case r1 of
                        c # cs \<Rightarrow> if c = CHR ''.'' then digitpart cs else ([], r1)
                      | [] \<Rightarrow> ([], r1))
      in if ip = [] \<and> fp = [] then None
         else (case exponent_part r2 of
                 None \<Rightarrow> None
               | Some (ex, rest) \<Rightarrow>
                   if rest \<noteq> [] then None
                   else Some (of_int (int_of_digits (ip @ fp)) * 10 powi (ex - int (length fp)))))"

definition py_float :: "string \<Rightarrow> py_error + pyfloat" where
  "py_float s =
     (let t = strip s;
          (neg, body) = (case t of
                           c # cs \<Rightarrow> if c = CHR ''-'' then (True, cs)
                                      else if c = CHR ''+'' then (False, cs) else (False, t)
                         | [] \<Rightarrow> (False, t))
      in if lower body = ''inf'' \<or> lower body = ''infinity'' then Inr (if neg then NegInf else PosInf)
         else if lower body = ''nan'' then Inr NaN
         else (case float_number body of
                 None \<Rightarrow> Inl ValueError
               | Some q \<Rightarrow> Inr (round_double (if neg then - q else q))))"

subsection \<open>Records\<close>

text \<open>
  \<open>TendonPoint\<close> and \<open>TendonData\<close> of \<open>_models_py3.py\<close>.  The field \<open>id\<close> is
  named \<open>tendon_id\<close> here.
\<close>

record tendon_point =
  distance_mm :: pyfloat
  height_mm :: int

record tendon_data =
  tendon_id :: int
  length_mm :: pyfloat
  start_xy_mm :: "pyfloat \<times> pyfloat"
  end_xy_mm :: "pyfloat \<times> pyfloat"
  tendon_type :: int
  strand_type :: pyfloat
  strand_count :: int
  start_type :: int
  end_type :: int
  points :: "tendon_point list"

text \<open>
  The record that the parser opens at a header: the constructor call of
  \<open>parser.py\<close> lines 90-98, with the class defaults \<open>start_type = 1\<close>,
  \<open>end_type = 3\<close> and no points for the fields it does not pass.
\<close>

definition new_tendon_data :: "int \<Rightarrow> tendon_data" where
  "new_tendon_data i =
     \<lparr>tendon_id = i, length_mm = Finite 0, start_xy_mm = (Finite 0, Finite 0),
      end_xy_mm = (Finite 0, Finite 0), tendon_type = 0, strand_type = Finite 0,
      strand_count = 0, start_type = 1, end_type = 3, points = []\<rparr>"

subsection \<open>The line patterns\<close>

text \<open>
  Each pattern is applied with \<open>re.match\<close> to the stripped line and yields its
  groups.  \<open>\s*\<close> and the digit classes are greedy and are followed by characters
  outside their class, so each takes the longest run.
\<close>

definition skip_spaces :: "string \<Rightarrow> string" where
  "skip_spaces s = dropWhile is_space s"

definition is_numeric :: "char \<Rightarrow> bool" where
  "is_numeric c \<longleftrightarrow> is_digit c \<or> c = CHR ''.''"

text \<open>\<open>\s*:\s*\<close> and then a non-empty run of the class \<open>cls\<close>: the run and the rest.\<close>

definition colon_then :: "(char \<Rightarrow> bool) \<Rightarrow> string \<Rightarrow> (string \<times> string) option" where
  "colon_then cls s =
     (case literal '':'' (skip_spaces s) of
        None \<Rightarrow> None
      | Some r \<Rightarrow>
          let t = skip_spaces r; g = takeWhile cls t
          in if g = [] then None else Some (g, dropWhile cls t))"

text \<open>\<open>_HEADER_TENDON_NO = ^Tendon No\.\s*(\d+)\<close>.\<close>

definition match_tendon_no :: "string \<Rightarrow> string option" where
  "match_tendon_no line =
     (case literal ''Tendon No.'' line of
        None \<Rightarrow> None
      | Some r \<Rightarrow> let g = takeWhile is_digit (skip_spaces r) in if g = [] then None else Some g)"

text \<open>\<open>_HEADER_LENGTH = ^Length\s*:\s*(\d+\.\d+)m\<close>.\<close>

definition match_length :: "string \<Rightarrow> string option" where
  "match_length line =
     (case literal ''Length'' line of
        None \<Rightarrow> None
      | Some r \<Rightarrow>
          (case colon_then is_digit r of
             None \<Rightarrow> None
           | Some (g1, r1) \<Rightarrow>
               (case literal ''.'' r1 of
                  None \<Rightarrow> None
                | Some r2 \<Rightarrow>
                    let g2 = takeWhile is_digit r2
                    in if g2 = [] then None
                       else (case literal ''m'' (dropWhile is_digit r2) of
                               None \<Rightarrow> None
                             | Some _ \<Rightarrow> Some (g1 @ ''.'' @ g2)))))"

text \<open>
  \<open>_HEADER_COORDS = ^End Point co-orinates.*start:\s*\(([^)]+)\)\s*end:\s*\(([^)]+)\)\<close>
  under \<open>re.IGNORECASE\<close>.  \<open>paren_group\<close> is \<open>\(([^)]+)\)\<close>; \<open>coords_tail\<close> is the
  pattern from \<open>start:\<close> on; \<open>after_any\<close> is the greedy \<open>.*\<close> before it, which
  gives back one character at a time and never passes a newline.
\<close>

definition paren_group :: "string \<Rightarrow> (string \<times> string) option" where
  "paren_group s =
     (case literal ''('' s of
        None \<Rightarrow> None
      | Some r \<Rightarrow>
          let g = takeWhile (\<lambda>c. c \<noteq> CHR '')'') r
          in if g = [] then None
             else (case literal '')'' (dropWhile (\<lambda>c. c \<noteq> CHR '')'') r) of
                     None \<Rightarrow> None
                   | Some r' \<Rightarrow> Some (g, r')))"

definition coords_tail :: "string \<Rightarrow> (string \<times> string) option" where
  "coords_tail s =
     (case literal_ci ''start:'' s of
        None \<Rightarrow> None
      | Some r \<Rightarrow>
          (case paren_group (skip_spaces r) of
             None \<Rightarrow> None
           | Some (g1, r1) \<Rightarrow>
               (case literal_ci ''end:'' (skip_spaces r1) of
                  None \<Rightarrow> None
                | Some r2 \<Rightarrow>
                    (case paren_group (skip_spaces r2) of
                       None \<Rightarrow> None
                     | Some (g2, _) \<Rightarrow> Some (g1, g2)))))"

fun after_any :: "(string \<Rightarrow> 'a option) \<Rightarrow> string \<Rightarrow> 'a option" where
  "after_any f [] = f []"
| "after_any f (c # cs) =
     (if c = CHR 0x0A then f (c # cs)
      else (case after_any f cs of Some r \<Rightarrow> Some r | None \<Rightarrow> f (c # cs)))"

definition match_coords :: "string \<Rightarrow> (string \<times> string) option" where
  "match_coords line =
     (case literal_ci ''end point co-orinates'' line of
        None \<Rightarrow> None
      | Some r \<Rightarrow> after_any coords_tail r)"

text \<open>\<open>_HEADER_TENDON_TYPE = ^Type\s*:\s*(\d+)\<close>.\<close>

definition match_tendon_type :: "string \<Rightarrow> string option" where
  "match_tendon_type line =
     (case literal ''Type'' line of
        None \<Rightarrow> None
      | Some r \<Rightarrow> map_option fst (colon_then is_digit r))"

text \<open>\<open>_HEADER_STRAND_TYPE = ^Type of strands\s*:\s*([\d\.]+)\<close>.\<close>

definition match_strand_type :: "string \<Rightarrow> string option" where
  "match_strand_type line =
     (case literal ''Type of strands'' line of
        None \<Rightarrow> None
      | Some r \<Rightarrow> map_option fst (colon_then is_numeric r))"

text \<open>\<open>_HEADER_STRAND_NO = ^Number of strands\s*:\s*(\d+)\<close>.\<close>

definition match_strand_no :: "string \<Rightarrow> string option" where
  "match_strand_no line =
     (case literal ''Number of strands'' line of
        None \<Rightarrow> None
      | Some r \<Rightarrow> map_option fst (colon_then is_digit r))"

text \<open>
  \<open>_HEADER_START = ^Start\s*:\s*(Live End|Dead End)\<close> and
  \<open>_HEADER_END = ^End\s*:\s*(Live End|Dead End)\<close>, both under \<open>re.IGNORECASE\<close>.
  The group is the matched text, eight characters long.
\<close>

definition live_or_dead :: "string \<Rightarrow> string option" where
  "live_or_dead s =
     (case literal '':'' (skip_spaces s) of
        None \<Rightarrow> None
      | Some r \<Rightarrow>
          let t = skip_spaces r
          in if literal_ci ''live end'' t \<noteq> None \<or> literal_ci ''dead end'' t \<noteq> None
             then Some (take 8 t) else None)"

definition match_start :: "string \<Rightarrow> string option" where
  "match_start line = (case literal_ci ''start'' line of None \<Rightarrow> None | Some r \<Rightarrow> live_or_dead r)"

definition match_end :: "string \<Rightarrow> string option" where
  "match_end line = (case literal_ci ''end'' line of None \<Rightarrow> None | Some r \<Rightarrow> live_or_dead r)"

text \<open>
  \<open>_TABLE_ROW = ^(\d+),\s*([\d\.]+),\s*([\d\.]+),\s*([\d\.]+)\<close>: the four groups.
\<close>

definition comma_then_numeric :: "string \<Rightarrow> (string \<times> string) option" where
  "comma_then_numeric s =
     (case literal '','' s of
        None \<Rightarrow> None
      | Some r \<Rightarrow>
          let t = skip_spaces r; g = takeWhile is_numeric t
          in if g = [] then None else Some (g, dropWhile is_numeric t))"

definition match_table_row :: "string \<Rightarrow> (string \<times> string \<times> string \<times> string) option" where
  "match_table_row line =
     (let g1 = takeWhile is_digit line
      in if g1 = [] then None
         else (case comma_then_numeric (dropWhile is_digit line) of
                 None \<Rightarrow> None
               | Some (g2, r2) \<Rightarrow>
                   (case comma_then_numeric r2 of
                      None \<Rightarrow> None
                    | Some (g3, r3) \<Rightarrow>
                        (case comma_then_numeric r3 of
                           None \<Rightarrow> None
                         | Some (g4, _) \<Rightarrow> Some (g1, g2, g3, g4)))))"

text \<open>\<open>_TABLE_START.search(line)\<close>, with \<open>_TABLE_START = No\.,\<close> under \<open>re.IGNORECASE\<close>.\<close>

definition search_table_start :: "string \<Rightarrow> bool" where
  "search_table_start line = contains_ci ''no.,'' line"

subsection \<open>Conversions\<close>

text \<open>\<open>_float_mm(val)\<close> and \<open>_coord_pair(raw)\<close>.\<close>

definition float_mm :: "string \<Rightarrow> py_error + pyfloat" where
  "float_mm val = (case py_float val of Inl e \<Rightarrow> Inl e | Inr x \<Rightarrow> Inr (times_mm_per_m x))"

definition coord_pair :: "string \<Rightarrow> py_error + pyfloat \<times> pyfloat" where
  "coord_pair raw =
     (case map strip (split_comma [] raw) of
        [x_str, y_str] \<Rightarrow>
          (case py_float x_str of
             Inl e \<Rightarrow> Inl e
           | Inr x \<Rightarrow>
               (case py_float y_str of
                  Inl e \<Rightarrow> Inl e
                | Inr y \<Rightarrow> Inr (times_mm_per_m x, times_mm_per_m y)))
      | _ \<Rightarrow> Inl ValueError)"

text \<open>
  The value written for a \<open>Start\<close> or \<open>End\<close> marker (lines 134-138 and 143-147):
  \<open>is_live\<close> is \<open>"live" in match.group(1).lower()\<close>.
\<close>

definition end_code :: "string \<Rightarrow> int \<Rightarrow> int" where
  "end_code grp ttype =
     (let is_live = contains ''live'' (lower grp)
      in if is_live then (if ttype = 2 then 3 else 1) else 2)"

subsection \<open>The state machine\<close>

text \<open>
  The three variables of \<open>parse_ptd_file\<close>: the records emitted so far, the open
  record (\<open>None\<close> before the first header) and the table flag.
\<close>

record parser_state =
  tendons :: "tendon_data list"
  tendon :: "tendon_data option"
  in_table :: bool

definition initial_state :: parser_state where
  "initial_state = \<lparr>tendons = [], tendon = None, in_table = False\<rparr>"

text \<open>The part of the loop body after the header test, for an open record \<open>t\<close>.\<close>

definition parse_field :: "parser_state \<Rightarrow> tendon_data \<Rightarrow> string \<Rightarrow> py_error + parser_state" where
  "parse_field st t line =
     (case match_length line of
        Some g \<Rightarrow>
          (case float_mm g of
             Inl e \<Rightarrow> Inl e
           | Inr v \<Rightarrow> Inr (st\<lparr>tendon := Some (t\<lparr>length_mm := v\<rparr>)\<rparr>))
      | None \<Rightarrow>
     (case match_coords line of
        Some (g1, g2) \<Rightarrow>
          (case coord_pair g1 of
             Inl e \<Rightarrow> Inl e
           | Inr s \<Rightarrow>
               (case coord_pair g2 of
                  Inl e \<Rightarrow> Inl e
                | Inr e \<Rightarrow> Inr (st\<lparr>tendon := Some (t\<lparr>start_xy_mm := s, end_xy_mm := e\<rparr>)\<rparr>)))
      | None \<Rightarrow>
     (case match_tendon_type line of
        Some g \<Rightarrow> Inr (st\<lparr>tendon := Some (t\<lparr>tendon_type := int_of_digits g\<rparr>)\<rparr>)
      | None \<Rightarrow>
     (case match_strand_type line of
        Some g \<Rightarrow>
          (case py_float g of
             Inl e \<Rightarrow> Inl e
           | Inr v \<Rightarrow> Inr (st\<lparr>tendon := Some (t\<lparr>strand_type := v\<rparr>)\<rparr>))
      | None \<Rightarrow>
     (case match_strand_no line of
        Some g \<Rightarrow> Inr (st\<lparr>tendon := Some (t\<lparr>strand_count := int_of_digits g\<rparr>)\<rparr>)
      | None \<Rightarrow>
     (case match_start line of
        Some g \<Rightarrow> Inr (st\<lparr>tendon := Some (t\<lparr>start_type := end_code g (tendon_type t)\<rparr>)\<rparr>)
      | None \<Rightarrow>
     (case match_end line of
        Some g \<Rightarrow> Inr (st\<lparr>tendon := Some (t\<lparr>end_type := end_code g (tendon_type t)\<rparr>)\<rparr>)
      | None \<Rightarrow>
     (if search_table_start line then Inr (st\<lparr>in_table := True\<rparr>)
      else if in_table st then
        (case match_table_row line of
           Some (g1, dist_str, h_raw, h5_str) \<Rightarrow>
             (case float_mm dist_str of
                Inl e \<Rightarrow> Inl e
              | Inr d \<Rightarrow>
                  (case py_float h5_str of
                     Inl e \<Rightarrow> Inl e
                   | Inr h \<Rightarrow>
                       (case int_of_float (times_mm_per_m h) of
                          Inl e \<Rightarrow> Inl e
                        | Inr hi \<Rightarrow>
                            Inr (st\<lparr>tendon := Some (t\<lparr>points := points t @
                                  [\<lparr>distance_mm = d, height_mm = hi\<rparr>]\<rparr>)\<rparr>))))
         | None \<Rightarrow> Inr (st\<lparr>in_table := False\<rparr>))
      else Inr st))))))))"

text \<open>One pass of the \<open>for line in fh\<close> loop.\<close>

definition parse_line :: "parser_state \<Rightarrow> string \<Rightarrow> py_error + parser_state" where
  "parse_line st raw_line =
     (let line = strip raw_line
      in if line = [] then Inr st
         else (case match_tendon_no line of
                 Some g \<Rightarrow>
                   Inr \<lparr>tendons = (case tendon st of Some t \<Rightarrow> tendons st @ [t] | None \<Rightarrow> tendons st),
                        tendon = Some (new_tendon_data (int_of_digits g)),
                        in_table = False\<rparr>
               | None \<Rightarrow>
                   (case tendon st of
                      None \<Rightarrow> Inr st
                    | Some t \<Rightarrow> parse_field st t line)))"

text \<open>The whole loop; an exception ends it.\<close>

fun parse_lines :: "parser_state \<Rightarrow> string list \<Rightarrow> py_error + parser_state" where
  "parse_lines st [] = Inr st"
| "parse_lines st (l # ls) =
     (case parse_line st l of Inl e \<Rightarrow> Inl e | Inr st' \<Rightarrow> parse_lines st' ls)"

text \<open>Lines 167-170: the open record is emitted at the end of the input.\<close>

definition finish :: "parser_state \<Rightarrow> tendon_data list" where
  "finish st = (case tendon st of Some t \<Rightarrow> tendons st @ [t] | None \<Rightarrow> tendons st)"

text \<open>
  \<open>parse_ptd_file(path)\<close>, as a function of the content of the file at \<open>path\<close>:
  \<open>None\<close> when no file exists there.  The result is the list held by the returned
  \<open>TendonSet\<close>.
\<close>

definition parse_ptd_text :: "string \<Rightarrow> py_error + tendon_data list" where
  "parse_ptd_text txt =
     (case parse_lines initial_state (split_lines [] txt) of
        Inl e \<Rightarrow> Inl e
      | Inr st \<Rightarrow> Inr (finish st))"

definition parse_ptd_file :: "string option \<Rightarrow> py_error + tendon_data list" where
  "parse_ptd_file content =
     (case content of None \<Rightarrow> Inl PTDParsingError | Some txt \<Rightarrow> parse_ptd_text txt)"

text \<open>The example block of the module's docstring, nine lines.\<close>

definition example_block :: string where
  "example_block = concat (map (\<lambda>l. l @ [CHR 0x0A])
     [''Tendon No. 1'',
      ''Length :  12.345m'',
      ''End Point co-orinates, start: ( 100.0, 200.0 ) end: ( 300.0, 200.0 )'',
      ''Type    : 1'',
      ''Type of strands : 12.7'',
      ''Number of strands : 3'',
      ''No.,    L:5mm,    H:5mm,    Rs,    Rh'',
      ''1,      0.000,    0.000,    0.000,  0.000'',
      ''2,      3.500,    0.025,    0.000,  0.000''])"

text \<open>
  The lines that come to the table test of the loop body (line 154): not blank, no
  header pattern matches and the table start marker is not found.
\<close>

definition reaches_table_test :: "string \<Rightarrow> bool" where
  "reaches_table_test line \<longleftrightarrow>
     line \<noteq> [] \<and> match_tendon_no line = None \<and> match_length line = None \<and>
     match_coords line = None \<and> match_tendon_type line = None \<and>
     match_strand_type line = None \<and> match_strand_no line = None \<and>
     match_start line = None \<and> match_end line = None \<and> \<not> search_table_start line"

text \<open>
  The integers of the header lines of a list of lines, in order: for each line that
  \<open>_HEADER_TENDON_NO\<close> matches after stripping, \<open>int(match.group(1))\<close>.
\<close>

definition header_ids :: "string list \<Rightarrow> int list" where
  "header_ids ls = List.map_filter (\<lambda>l. map_option int_of_digits (match_tendon_no (strip l))) ls"

text \<open>A text from its lines, each ended by a newline.\<close>

definition text_of_lines :: "string list \<Rightarrow> string" where
  "text_of_lines ls = concat (map (\<lambda>l. l @ [CHR 0x0A]) ls)"

subsection \<open>Evaluating float conversions\<close>

lemma powi_mono2: "e \<le> e' \<Longrightarrow> (2::rat) powi e \<le> 2 powi e'"
  by (rule power_int_increasing) simp_all

lemma powi_strict2: "(2::rat) powi e < 2 powi e' \<Longrightarrow> e < e'"
  by (metis linorder_not_less powi_mono2)

lemma floor_log2_bounds:
  assumes "0 < a"
  shows "2 powi (floor_log2 a) \<le> a \<and> a < 2 powi (floor_log2 a + 1)"
proof -
  obtain n d where nd: "quotient_of a = (n, d)" by (cases "quotient_of a")
  then have d: "0 < d" by (rule quotient_of_denom_pos)
  from nd have a: "a = of_int n / of_int d" by (rule quotient_of_div)
  with assms d have n: "0 < n" by (simp add: zero_less_divide_iff)
  define bn where "bn = bitlen n"
  define bd where "bd = bitlen d"
  have bn: "2 ^ nat (bn - 1) \<le> n" "n < 2 ^ nat bn"
    using bitlen_bounds [OF n] by (simp_all add: bn_def)
  have bd: "2 ^ nat (bd - 1) \<le> d" "d < 2 ^ nat bd"
    using bitlen_bounds [OF d] by (simp_all add: bd_def)
  have bn1: "1 \<le> bn" using n by (simp add: bn_def bitlen_alt_def)
  have bd1: "1 \<le> bd" using d by (simp add: bd_def bitlen_alt_def)
  have p2: "(2::rat) powi k = of_int (2 ^ nat k)" if "0 \<le> k" for k
    using that by (simp add: power_int_def)
  have nr: "(2::rat) powi (bn - 1) \<le> of_int n" "of_int n < (2::rat) powi bn"
    using bn bn1 by (simp_all only: p2 of_int_le_iff of_int_less_iff)
  have dr: "(2::rat) powi (bd - 1) \<le> of_int d" "of_int d < (2::rat) powi bd"
    using bd bd1 by (simp_all only: p2 of_int_le_iff of_int_less_iff)
  have dpos: "(0::rat) < of_int d" using d by simp
  have "2 powi (bn - bd - 1) * of_int d < 2 powi (bn - bd - 1) * (2::rat) powi bd"
    using dr(2) by (simp add: zero_less_power_int)
  also have "\<dots> = 2 powi (bn - 1)"
    by (simp add: power_int_add [symmetric])
  also have "\<dots> \<le> of_int n" by (rule nr(1))
  finally have lo: "2 powi (bn - bd - 1) < a"
    using dpos by (simp add: a pos_less_divide_eq)
  have "of_int n < (2::rat) powi bn" by (rule nr(2))
  also have "\<dots> = 2 powi (bn - bd + 1) * 2 powi (bd - 1)"
    by (simp add: power_int_add [symmetric])
  also have "\<dots> \<le> 2 powi (bn - bd + 1) * of_int d"
    using dr(1) by (simp add: zero_less_power_int)
  finally have hi: "a < 2 powi (bn - bd + 1)"
    using dpos by (simp add: a pos_divide_less_eq)
  show ?thesis
  proof (cases "2 powi (bn - bd) \<le> a")
    case True
    then show ?thesis using hi nd by (simp add: floor_log2_def Let_def bn_def bd_def)
  next
    case False
    then show ?thesis using lo nd by (simp add: floor_log2_def Let_def bn_def bd_def)
  qed
qed

lemma floor_log2_unique:
  assumes "0 < a" "2 powi e \<le> a" "a < 2 powi (e + 1)"
  shows "floor_log2 a = e"
proof -
  from floor_log2_bounds [OF assms(1)]
  have b: "2 powi (floor_log2 a) \<le> a" "a < 2 powi (floor_log2 a + 1)" by simp_all
  from b(1) assms(3) have "(2::rat) powi (floor_log2 a) < 2 powi (e + 1)" by simp
  then have "floor_log2 a < e + 1" by (rule powi_strict2)
  moreover from assms(2) b(2) have "(2::rat) powi e < 2 powi (floor_log2 a + 1)" by simp
  then have "e < floor_log2 a + 1" by (rule powi_strict2)
  ultimately show ?thesis by simp
qed

text \<open>Evaluation of \<open>round_double\<close> with the exponent given.\<close>

lemma round_half_even_eval:
  assumes "of_int m - 1 / 2 < r" "r < of_int m + 1 / 2"
  shows "round_half_even r = m"
proof (cases "of_int m \<le> r")
  case True
  with assms(2) have "\<lfloor>r\<rfloor> = m" by (intro floor_unique) simp_all
  then show ?thesis using assms(2) by (simp add: round_half_even_def Let_def)
next
  case False
  with assms(1) have f: "\<lfloor>r\<rfloor> = m - 1" by (intro floor_unique) simp_all
  have "\<not> r - of_int (m - 1) < 1 / 2" "r - of_int (m - 1) > 1 / 2"
    using assms(1) by simp_all
  then show ?thesis using f by (simp add: round_half_even_def Let_def)
qed

lemma round_double_eval:
  assumes "0 < a" "2 powi (e + 52) \<le> a" "a < 2 powi (e + 53)" "- 1074 \<le> e"
    and "of_int m - 1 / 2 < a / 2 powi e" "a / 2 powi e < of_int m + 1 / 2"
    and "of_int m * 2 powi e < (2::rat) ^ 1024"
  shows "round_double a = Finite (of_int m * 2 powi e)"
proof -
  have "floor_log2 a = e + 52"
    using assms(1,2,3) by (intro floor_log2_unique) (simp_all add: add.commute add.left_commute)
  with assms(4) have e: "max (floor_log2 a - 52) (- 1074) = e" by simp
  have r: "round_half_even (a / 2 powi e) = m"
    using assms(5,6) by (rule round_half_even_eval)
  have ne: "(a = 0) = False" "(a < 0) = False" "\<bar>a\<bar> = a" using assms(1) by simp_all
  have nov: "((2::rat) ^ 1024 \<le> of_int m * 2 powi e) = False"
    using assms(7) by (metis linorder_not_less)
  show ?thesis
    by (simp only: round_double_def Let_def ne e r nov if_False)
qed


lemma round_double_exact:
  assumes "0 < a" "a = of_int m * 2 powi e" "2 powi (e + 52) \<le> a" "a < 2 powi (e + 53)"
    "- 1074 \<le> e" "a < 2 ^ 1024"
  shows "round_double a = Finite a"
proof -
  have "a / 2 powi e = of_int m" using assms(2) by simp
  then have "round_double a = Finite (of_int m * 2 powi e)"
    using assms by (intro round_double_eval) simp_all
  then show ?thesis using assms(2) by simp
qed

lemma round_double_0: "round_double 0 = Finite 0"
  by (simp add: round_double_def)

lemma rd_12345: "round_double (2469 / 200) = Finite (6949617174986097 / 562949953421312)"
proof -
  have "round_double (2469 / 200) = Finite (of_int 6949617174986097 * 2 powi (- 49))"
    by (rule round_double_eval) (simp_all add: power_int_minus)
  then show ?thesis by (simp add: power_int_minus field_simps)
qed

lemma rd_12345_mm: "round_double (6949617174986097 / 562949953421312 * 1000) = Finite 12345"
proof -
  have "round_double (6949617174986097 / 562949953421312 * 1000)
          = Finite (of_int 6786735522447360 * 2 powi (- 39))"
    by (rule round_double_eval) (simp_all add: power_int_minus)
  then show ?thesis by (simp add: power_int_minus field_simps)
qed

lemma rd_exact_values:
  "round_double 100 = Finite 100" "round_double 200 = Finite 200" "round_double 300 = Finite 300"
  "round_double 100000 = Finite 100000" "round_double 200000 = Finite 200000"
  "round_double 300000 = Finite 300000"
  "round_double (7 / 2) = Finite (7 / 2)" "round_double 3500 = Finite 3500"
  "round_double (1 / 2) = Finite (1 / 2)" "round_double 500 = Finite 500"
  "round_double (1 / 4) = Finite (1 / 4)" "round_double 250 = Finite 250"
  by (rule round_double_exact [where e = "- 46" and m = "100 * 2 ^ 46"], simp_all add: power_int_minus)
     (rule round_double_exact [where e = "- 45" and m = "200 * 2 ^ 45"], simp_all add: power_int_minus,
      rule round_double_exact [where e = "- 44" and m = "300 * 2 ^ 44"], simp_all add: power_int_minus,
      rule round_double_exact [where e = "- 36" and m = "100000 * 2 ^ 36"], simp_all add: power_int_minus,
      rule round_double_exact [where e = "- 35" and m = "200000 * 2 ^ 35"], simp_all add: power_int_minus,
      rule round_double_exact [where e = "- 34" and m = "300000 * 2 ^ 34"], simp_all add: power_int_minus,
      rule round_double_exact [where e = "- 51" and m = "7 * 2 ^ 50"], simp_all add: power_int_minus,
      rule round_double_exact [where e = "- 41" and m = "3500 * 2 ^ 41"], simp_all add: power_int_minus,
      rule round_double_exact [where e = "- 53" and m = "2 ^ 52"], simp_all add: power_int_minus,
      rule round_double_exact [where e = "- 44" and m = "500 * 2 ^ 44"], simp_all add: power_int_minus,
      rule round_double_exact [where e = "- 54" and m = "2 ^ 52"], simp_all add: power_int_minus,
      rule round_double_exact [where e = "- 45" and m = "250 * 2 ^ 45"], simp_all add: power_int_minus)

lemmas string_eval = py_float_def strip_def lower_def to_lower_def float_number_def digitpart_def
  exponent_part_def int_of_digits_def digit_val_def is_digit_def is_space_def Let_def

lemma pf1: "py_float ''12.345'' = Inr (Finite (6949617174986097 / 562949953421312))"
  by (simp add: string_eval rd_12345)

lemma pf2: "py_float ''100.0'' = Inr (Finite 100)" "py_float ''200.0'' = Inr (Finite 200)"
  "py_float ''300.0'' = Inr (Finite 300)"
  by (simp_all add: string_eval rd_exact_values)

lemma pf3: "py_float ''12.7'' = Inr (round_double (127 / 10))"
  by (simp add: string_eval)

lemma pf4: "py_float ''0.000'' = Inr (Finite 0)" "py_float ''3.500'' = Inr (Finite (7 / 2))"
  by (simp_all add: string_eval rd_exact_values round_double_0)

lemma pf5: "py_float ''0.0'' = Inr (Finite 0)" "py_float ''0.5'' = Inr (Finite (1 / 2))"
  "py_float ''0.25'' = Inr (Finite (1 / 4))"
  by (simp_all add: string_eval rd_exact_values round_double_0)

lemma pf6: "py_float ''1.2.3'' = Inl ValueError"
  by (simp add: string_eval)

subsection \<open>The example block\<close>

lemmas match_eval = parse_line_def parse_field_def match_tendon_no_def match_length_def
  match_coords_def coords_tail_def paren_group_def match_tendon_type_def match_strand_type_def
  match_strand_no_def match_start_def match_end_def live_or_dead_def match_table_row_def
  comma_then_numeric_def search_table_start_def colon_then_def skip_spaces_def is_numeric_def
  strip_def is_space_def is_digit_def to_lower_def int_of_digits_def digit_val_def Let_def

lemma example_lines:
  "split_lines [] example_block =
     [''Tendon No. 1'',
      ''Length :  12.345m'',
      ''End Point co-orinates, start: ( 100.0, 200.0 ) end: ( 300.0, 200.0 )'',
      ''Type    : 1'',
      ''Type of strands : 12.7'',
      ''Number of strands : 3'',
      ''No.,    L:5mm,    H:5mm,    Rs,    Rh'',
      ''1,      0.000,    0.000,    0.000,  0.000'',
      ''2,      3.500,    0.025,    0.000,  0.000'']"
  by (simp add: example_block_def)

lemma line1:
  "parse_line st ''Tendon No. 1'' =
     Inr \<lparr>tendons = (case tendon st of Some t \<Rightarrow> tendons st @ [t] | None \<Rightarrow> tendons st),
          tendon = Some (new_tendon_data 1), in_table = False\<rparr>"
  by (simp add: match_eval)

lemma mm_12345: "times_mm_per_m (Finite (6949617174986097 / 562949953421312)) = Finite 12345"
  unfolding times_mm_per_m_def by (simp only: pyfloat.case rd_12345_mm)

lemma line2:
  "tendon st = Some t \<Longrightarrow>
   parse_line st ''Length :  12.345m'' = Inr (st\<lparr>tendon := Some (t\<lparr>length_mm := Finite 12345\<rparr>)\<rparr>)"
  by (simp add: match_eval float_mm_def pf1 mm_12345)

lemma coords_example:
  "coord_pair '' 100.0, 200.0 '' = Inr (Finite 100000, Finite 200000)"
  "coord_pair '' 300.0, 200.0 '' = Inr (Finite 300000, Finite 200000)"
  by (simp_all add: coord_pair_def strip_def is_space_def pf2 times_mm_per_m_def rd_exact_values)

lemma line3:
  "tendon st = Some t \<Longrightarrow>
   parse_line st ''End Point co-orinates, start: ( 100.0, 200.0 ) end: ( 300.0, 200.0 )'' =
     Inr (st\<lparr>tendon := Some (t\<lparr>start_xy_mm := (Finite 100000, Finite 200000),
                                  end_xy_mm := (Finite 300000, Finite 200000)\<rparr>)\<rparr>)"
  by (simp add: match_eval coords_example)

lemma line4:
  "tendon st = Some t \<Longrightarrow>
   parse_line st ''Type    : 1'' = Inr (st\<lparr>tendon := Some (t\<lparr>tendon_type := 1\<rparr>)\<rparr>)"
  by (simp add: match_eval)

lemma line5:
  "tendon st = Some t \<Longrightarrow>
   parse_line st ''Type of strands : 12.7'' =
     Inr (st\<lparr>tendon := Some (t\<lparr>strand_type := round_double (127 / 10)\<rparr>)\<rparr>)"
  by (simp add: match_eval pf3)

lemma line6:
  "tendon st = Some t \<Longrightarrow>
   parse_line st ''Number of strands : 3'' = Inr (st\<lparr>tendon := Some (t\<lparr>strand_count := 3\<rparr>)\<rparr>)"
  by (simp add: match_eval)

lemma line7:
  "tendon st = Some t \<Longrightarrow>
   parse_line st ''No.,    L:5mm,    H:5mm,    Rs,    Rh'' = Inr (st\<lparr>in_table := True\<rparr>)"
  by (simp add: match_eval)

lemma line8:
  "tendon st = Some t \<Longrightarrow> in_table st \<Longrightarrow>
   parse_line st ''1,      0.000,    0.000,    0.000,  0.000'' =
     Inr (st\<lparr>tendon := Some (t\<lparr>points := points t @ [\<lparr>distance_mm = Finite 0, height_mm = 0\<rparr>]\<rparr>)\<rparr>)"
  by (simp add: match_eval float_mm_def pf4 times_mm_per_m_def round_double_0 int_of_float_def)

lemma line9:
  "tendon st = Some t \<Longrightarrow> in_table st \<Longrightarrow>
   parse_line st ''2,      3.500,    0.025,    0.000,  0.000'' =
     Inr (st\<lparr>tendon := Some (t\<lparr>points := points t @ [\<lparr>distance_mm = Finite 3500, height_mm = 0\<rparr>]\<rparr>)\<rparr>)"
  by (simp add: match_eval float_mm_def pf4 times_mm_per_m_def round_double_0 int_of_float_def
      rd_exact_values)

text \<open>
  C2, as stated, fails: the second profile point of the example has height 0, not 25.
  The height is read from the fourth group of the row pattern, the column after the
  \<open>H:5mm\<close> column, which holds \<open>0.000\<close> in both rows of the example.
\<close>

theorem example_block_second_height_is_not_25:
  "parse_ptd_file (Some example_block) \<noteq>
     Inr [\<lparr>tendon_id = 1, length_mm = Finite 12345,
           start_xy_mm = (Finite 100000, Finite 200000),
           end_xy_mm = (Finite 300000, Finite 200000), tendon_type = 1,
           strand_type = round_double (127 / 10), strand_count = 3,
           start_type = 1, end_type = 3,
           points = [\<lparr>distance_mm = Finite 0, height_mm = 0\<rparr>,
                     \<lparr>distance_mm = Finite 3500, height_mm = 25\<rparr>]\<rparr>]"
  by (simp add: parse_ptd_file_def parse_ptd_text_def example_lines initial_state_def
      line1 line2 line3 line4 line5 line6 line7 line8 line9 finish_def new_tendon_data_def)

text \<open>
  C2, amended.  Parsing the nine-line example block yields exactly one record with id
  1, length 12345.0 mm, start (100000.0, 200000.0) mm, end (300000.0, 200000.0) mm,
  tendon type 1, strand type 12.7 (the binary64 number nearest to it), strand count 3,
  the default end codes 1 and 3, and exactly two profile points, (0.0 mm, 0 mm) and
  (3500.0 mm, 0 mm): the heights come from the fourth column of the rows.
\<close>

theorem example_block_parses_with_fourth_column_heights:
  "parse_ptd_file (Some example_block) =
     Inr [\<lparr>tendon_id = 1, length_mm = Finite 12345,
           start_xy_mm = (Finite 100000, Finite 200000),
           end_xy_mm = (Finite 300000, Finite 200000), tendon_type = 1,
           strand_type = round_double (127 / 10), strand_count = 3,
           start_type = 1, end_type = 3,
           points = [\<lparr>distance_mm = Finite 0, height_mm = 0\<rparr>,
                     \<lparr>distance_mm = Finite 3500, height_mm = 0\<rparr>]\<rparr>]"
  by (simp add: parse_ptd_file_def parse_ptd_text_def example_lines initial_state_def
      line1 line2 line3 line4 line5 line6 line7 line8 line9 finish_def new_tendon_data_def)

subsection \<open>Blank lines and the end of a table\<close>

lemma strip_Nil: "strip [] = []"
  by (simp add: strip_def)

lemma match_tendon_no_Nil: "match_tendon_no [] = None"
  by (simp add: match_tendon_no_def)

lemma parse_line_blank: "strip l = [] \<Longrightarrow> parse_line st l = Inr st"
  by (simp add: parse_line_def)

lemma parse_lines_append:
  "parse_lines st (xs @ ys) =
     (case parse_lines st xs of Inl e \<Rightarrow> Inl e | Inr st' \<Rightarrow> parse_lines st' ys)"
  by (induction xs arbitrary: st) (auto split: sum.splits)

lemma parse_lines_drop_blank:
  assumes "strip l = []"
  shows "parse_lines st (ls @ l # ls') = parse_lines st (ls @ ls')"
  by (simp add: parse_lines_append parse_line_blank [OF assms] split: sum.splits)

lemma parse_line_table_test:
  assumes "tendon st = Some t" "reaches_table_test (strip l)"
  shows "parse_line st l =
           (if in_table st then
              (case match_table_row (strip l) of
                 None \<Rightarrow> Inr (st\<lparr>in_table := False\<rparr>)
               | Some (g1, dist_str, h_raw, h5_str) \<Rightarrow>
                   (case float_mm dist_str of
                      Inl e \<Rightarrow> Inl e
                    | Inr d \<Rightarrow>
                        (case py_float h5_str of
                           Inl e \<Rightarrow> Inl e
                         | Inr h \<Rightarrow>
                             (case int_of_float (times_mm_per_m h) of
                                Inl e \<Rightarrow> Inl e
                              | Inr hi \<Rightarrow>
                                  Inr (st\<lparr>tendon := Some (t\<lparr>points := points t @
                                        [\<lparr>distance_mm = d, height_mm = hi\<rparr>]\<rparr>)\<rparr>)))))
            else Inr st)"
  using assms by (simp add: parse_line_def parse_field_def reaches_table_test_def Let_def)

lemma split_text_of_lines_example:
  "split_lines [] (text_of_lines [''Tendon No. 1'', ''No., L, H'', ''1, 0.0, 0.0, 0.0'', '''',
       ''2, 0.5, 0.0, 0.25'']) =
     [''Tendon No. 1'', ''No., L, H'', ''1, 0.0, 0.0, 0.0'', '''', ''2, 0.5, 0.0, 0.25'']"
  by (simp add: text_of_lines_def)

lemma row_a:
  "tendon st = Some t \<Longrightarrow> in_table st \<Longrightarrow>
   parse_line st ''1, 0.0, 0.0, 0.0'' =
     Inr (st\<lparr>tendon := Some (t\<lparr>points := points t @ [\<lparr>distance_mm = Finite 0, height_mm = 0\<rparr>]\<rparr>)\<rparr>)"
  by (simp add: match_eval float_mm_def pf5 times_mm_per_m_def round_double_0 int_of_float_def)

lemma row_b:
  "tendon st = Some t \<Longrightarrow> in_table st \<Longrightarrow>
   parse_line st ''2, 0.5, 0.0, 0.25'' =
     Inr (st\<lparr>tendon := Some (t\<lparr>points := points t @ [\<lparr>distance_mm = Finite 500, height_mm = 250\<rparr>]\<rparr>)\<rparr>)"
  by (simp add: match_eval float_mm_def pf5 times_mm_per_m_def rd_exact_values int_of_float_def)

lemma table_start_a:
  "tendon st = Some t \<Longrightarrow> parse_line st ''No., L, H'' = Inr (st\<lparr>in_table := True\<rparr>)"
  by (simp add: match_eval)

text \<open>
  C3, as stated, fails: a blank line is skipped before the table flag is looked at, so
  the row after the blank line is appended to the profile of the record.
\<close>

theorem row_after_blank_line_is_appended:
  "parse_ptd_text (text_of_lines [''Tendon No. 1'', ''No., L, H'', ''1, 0.0, 0.0, 0.0'', '''',
       ''2, 0.5, 0.0, 0.25'']) =
     Inr [(new_tendon_data 1)\<lparr>points := [\<lparr>distance_mm = Finite 0, height_mm = 0\<rparr>,
                                        \<lparr>distance_mm = Finite 500, height_mm = 250\<rparr>]\<rparr>]"
  by (simp add: parse_ptd_text_def split_text_of_lines_example initial_state_def line1
      table_start_a row_a row_b parse_line_blank strip_Nil finish_def new_tendon_data_def)

lemma rt1: "reaches_table_test (strip ''---'')" "match_table_row (strip ''---'') = None"
  by (simp_all add: reaches_table_test_def match_eval contains_ci.simps)

lemma rt2: "reaches_table_test (strip ''2, 0.5, 0.0, 0.25'')"
  by (simp add: reaches_table_test_def match_eval)

text \<open>
  C3, amended.  A blank line (empty after stripping) leaves the parser state as it is,
  table mode included, and can be deleted from the input without changing the result,
  so a row that follows it in table mode is still appended.  The table of the open
  record is ended by a non-blank line that comes to the table test and fails the row
  pattern; a line that comes to the table test outside table mode, a row included, is
  not appended and changes nothing.
\<close>

theorem blank_line_skipped_table_ends_at_non_row:
  "(strip l = [] \<longrightarrow>
      parse_line st l = Inr st \<and> parse_lines st (ls @ l # ls') = parse_lines st (ls @ ls')) \<and>
   (tendon st = Some t \<and> in_table st \<and> reaches_table_test (strip l) \<and>
      match_table_row (strip l) = None \<longrightarrow> parse_line st l = Inr (st\<lparr>in_table := False\<rparr>)) \<and>
   (tendon st = Some t \<and> \<not> in_table st \<and> reaches_table_test (strip l) \<longrightarrow>
      parse_line st l = Inr st)"
proof (intro conjI impI)
  assume "strip l = []"
  then show "parse_line st l = Inr st" by (rule parse_line_blank)
next
  assume "strip l = []"
  then show "parse_lines st (ls @ l # ls') = parse_lines st (ls @ ls')"
    by (rule parse_lines_drop_blank)
next
  assume "tendon st = Some t \<and> in_table st \<and> reaches_table_test (strip l) \<and>
      match_table_row (strip l) = None"
  then show "parse_line st l = Inr (st\<lparr>in_table := False\<rparr>)"
    by (simp add: parse_line_table_test)
next
  assume "tendon st = Some t \<and> \<not> in_table st \<and> reaches_table_test (strip l)"
  then show "parse_line st l = Inr st"
    by (simp add: parse_line_table_test)
qed

theorem blank_line_skipped_witness:
  "parse_line \<lparr>tendons = [], tendon = Some (new_tendon_data 1), in_table = True\<rparr> ''''
     = Inr \<lparr>tendons = [], tendon = Some (new_tendon_data 1), in_table = True\<rparr> \<and>
   parse_line \<lparr>tendons = [], tendon = Some (new_tendon_data 1), in_table = True\<rparr> ''---''
     = Inr \<lparr>tendons = [], tendon = Some (new_tendon_data 1), in_table = False\<rparr> \<and>
   parse_line \<lparr>tendons = [], tendon = Some (new_tendon_data 1), in_table = False\<rparr>
       ''2, 0.5, 0.0, 0.25''
     = Inr \<lparr>tendons = [], tendon = Some (new_tendon_data 1), in_table = False\<rparr>"
proof -
  let ?s = "\<lparr>tendons = [], tendon = Some (new_tendon_data 1), in_table = True\<rparr>"
  let ?s' = "\<lparr>tendons = [], tendon = Some (new_tendon_data 1), in_table = False\<rparr>"
  have a: "parse_line ?s '''' = Inr ?s"
    using blank_line_skipped_table_ends_at_non_row [of "''''" ?s "[]" "[]" "new_tendon_data 1"]
    by (simp add: strip_Nil)
  have b: "parse_line ?s ''---'' = Inr ?s'"
    using blank_line_skipped_table_ends_at_non_row [of "''---''" ?s "[]" "[]" "new_tendon_data 1"] rt1
    by simp
  have c: "parse_line ?s' ''2, 0.5, 0.0, 0.25'' = Inr ?s'"
    using blank_line_skipped_table_ends_at_non_row
            [of "''2, 0.5, 0.0, 0.25''" ?s' "[]" "[]" "new_tendon_data 1"] rt2
    by simp
  from a b c show ?thesis by simp
qed

subsection \<open>The end codes\<close>

lemma end_dead:
  "tendon st = Some t \<Longrightarrow>
   parse_line st ''End : Dead End'' = Inr (st\<lparr>tendon := Some (t\<lparr>end_type := 2\<rparr>)\<rparr>)"
  by (simp add: match_eval end_code_def lower_def)

lemma end_live:
  "tendon st = Some t \<Longrightarrow>
   parse_line st ''End : Live End'' =
     Inr (st\<lparr>tendon := Some (t\<lparr>end_type := (if tendon_type t = 2 then 3 else 1)\<rparr>)\<rparr>)"
  by (simp add: match_eval end_code_def lower_def)

lemma type_2:
  "tendon st = Some t \<Longrightarrow>
   parse_line st ''Type    : 2'' = Inr (st\<lparr>tendon := Some (t\<lparr>tendon_type := 2\<rparr>)\<rparr>)"
  by (simp add: match_eval)

text \<open>
  C4.  A record block without \<open>Start\<close> and \<open>End\<close> marker lines keeps the class
  defaults: \<open>start_type = 1\<close>, which is the value the parser writes for a live end
  of a tendon that is not a pan, and \<open>end_type = 3\<close>.  The parser writes 2 for an
  explicit \<open>Dead End\<close> marker and 3 for a live end of a pan tendon, so the default
  \<open>end_type\<close> is not the value of an explicit dead end.
\<close>

theorem default_end_type_is_not_the_dead_code: "parse_ptd_text (text_of_lines [''Tendon No. 1'']) = Inr [new_tendon_data 1] \<and>
   start_type (new_tendon_data 1) = 1 \<and> end_type (new_tendon_data 1) = 3 \<and>
   parse_ptd_text (text_of_lines [''Tendon No. 1'', ''End : Dead End'']) =
     Inr [(new_tendon_data 1)\<lparr>end_type := 2\<rparr>] \<and>
   parse_ptd_text (text_of_lines [''Tendon No. 1'', ''Type    : 2'', ''End : Live End'']) =
     Inr [(new_tendon_data 1)\<lparr>tendon_type := 2, end_type := 3\<rparr>]"
  by (simp add: parse_ptd_text_def text_of_lines_def initial_state_def line1 end_dead end_live type_2
      finish_def new_tendon_data_def)

subsection \<open>One record per header\<close>

lemma parse_field_keeps:
  assumes "parse_field st t line = Inr st'" "tendon st = Some t"
  shows "tendons st' = tendons st \<and> (\<exists>t'. tendon st' = Some t' \<and> tendon_id t' = tendon_id t)"
  using assms
  by (auto simp: parse_field_def split: option.splits sum.splits if_splits prod.splits)

lemma finish_ids_step:
  assumes "parse_line st l = Inr st'"
  shows "map tendon_id (finish st') = map tendon_id (finish st) @ header_ids [l]"
proof (cases "strip l = []")
  case True
  with assms show ?thesis
    by (simp add: parse_line_blank header_ids_def List.map_filter_simps match_tendon_no_Nil)
next
  case False
  show ?thesis
  proof (cases "match_tendon_no (strip l)")
    case (Some g)
    with False assms have "st' = \<lparr>tendons = (case tendon st of Some t \<Rightarrow> tendons st @ [t] | None \<Rightarrow> tendons st),
          tendon = Some (new_tendon_data (int_of_digits g)), in_table = False\<rparr>"
      by (simp add: parse_line_def)
    then show ?thesis using Some
      by (simp add: finish_def header_ids_def List.map_filter_simps new_tendon_data_def)
  next
    case None
    show ?thesis
    proof (cases "tendon st")
      case N: None
      with None False assms have "st' = st" by (simp add: parse_line_def)
      then show ?thesis using None by (simp add: header_ids_def List.map_filter_simps)
    next
      case (Some t)
      with None False assms have "parse_field st t (strip l) = Inr st'"
        by (simp add: parse_line_def)
      from parse_field_keeps [OF this Some] show ?thesis
        using Some None by (auto simp: finish_def header_ids_def List.map_filter_simps)
    qed
  qed
qed

lemma header_ids_Cons: "header_ids (l # ls) = header_ids [l] @ header_ids ls"
  by (simp add: header_ids_def List.map_filter_simps split: option.splits)

lemma finish_ids:
  "parse_lines st ls = Inr st' \<Longrightarrow>
   map tendon_id (finish st') = map tendon_id (finish st) @ header_ids ls"
proof (induction ls arbitrary: st)
  case Nil
  then show ?case by (simp add: header_ids_def List.map_filter_simps)
next
  case (Cons l ls)
  from Cons.prems obtain st1 where s1: "parse_line st l = Inr st1" and s2: "parse_lines st1 ls = Inr st'"
    by (auto split: sum.splits)
  from Cons.IH [OF s2] finish_ids_step [OF s1] show ?case
    by (simp add: header_ids_Cons [of l ls])
qed

lemma no_header_no_record:
  "\<forall>l\<in>set pre. match_tendon_no (strip l) = None \<Longrightarrow>
   parse_lines initial_state pre = Inr initial_state"
proof (induction pre)
  case Nil
  show ?case by simp
next
  case (Cons l pre)
  then have "parse_line initial_state l = Inr initial_state"
    by (simp add: parse_line_def initial_state_def Let_def)
  then show ?case using Cons by simp
qed

lemma bad_strand:
  "tendon st = Some t \<Longrightarrow> parse_line st ''Type of strands : 1.2.3'' = Inl ValueError"
  by (simp add: match_eval pf6)

lemma header_lines_7_3:
  "parse_line st ''Tendon No. 7'' =
     Inr \<lparr>tendons = (case tendon st of Some t \<Rightarrow> tendons st @ [t] | None \<Rightarrow> tendons st),
          tendon = Some (new_tendon_data 7), in_table = False\<rparr>"
  "parse_line st ''Tendon No. 3'' =
     Inr \<lparr>tendons = (case tendon st of Some t \<Rightarrow> tendons st @ [t] | None \<Rightarrow> tendons st),
          tendon = Some (new_tendon_data 3), in_table = False\<rparr>"
  "match_tendon_no (strip ''PTD export'') = None"
  by (simp_all add: match_eval)

text \<open>
  C9, as stated, fails: a malformed numeric literal makes the whole parse raise, and
  then no record is emitted although the text has a header line.
\<close>

theorem header_without_record_on_conversion_error: "parse_ptd_text (text_of_lines [''Tendon No. 1'', ''Type of strands : 1.2.3'']) = Inl ValueError \<and>
   header_ids (split_lines [] (text_of_lines [''Tendon No. 1'', ''Type of strands : 1.2.3''])) = [1]"
  by (simp add: parse_ptd_text_def text_of_lines_def initial_state_def line1 bad_strand
      header_ids_def List.map_filter_simps match_tendon_no_def strip_def is_space_def is_digit_def skip_spaces_def int_of_digits_def digit_val_def)


text \<open>
  C9, amended.  For every input text on which no conversion raises, the parser emits
  exactly one record per \<open>Tendon No. <int>\<close> header line, in header order and
  carrying the integer of that header as its id, the record open at the end of the
  input included; the lines before the first header line produce no record, change no
  record and raise nothing.
\<close>

theorem one_record_per_header:
  "(parse_ptd_text txt = Inr ts \<longrightarrow> map tendon_id ts = header_ids (split_lines [] txt)) \<and>
   ((\<forall>l\<in>set pre. match_tendon_no (strip l) = None) \<longrightarrow>
      parse_lines initial_state pre = Inr initial_state)"
proof -
  have "map tendon_id ts = header_ids (split_lines [] txt)" if "parse_ptd_text txt = Inr ts"
  proof -
    from that obtain st where st: "parse_lines initial_state (split_lines [] txt) = Inr st"
      and ts: "ts = finish st"
      by (auto simp: parse_ptd_text_def split: sum.splits)
    from finish_ids [OF st] show ?thesis
      by (simp add: ts finish_def initial_state_def)
  qed
  then show ?thesis using no_header_no_record by blast
qed


theorem one_record_per_header_witness:
  "parse_ptd_text (text_of_lines [''PTD export'', ''Tendon No. 7'', ''Tendon No. 3''])
     = Inr [new_tendon_data 7, new_tendon_data 3] \<and>
   map tendon_id [new_tendon_data 7, new_tendon_data 3]
     = header_ids (split_lines [] (text_of_lines [''PTD export'', ''Tendon No. 7'', ''Tendon No. 3''])) \<and>
   match_tendon_no (strip ''PTD export'') = None \<and>
   parse_lines initial_state [''PTD export''] = Inr initial_state"
proof -
  let ?T = "text_of_lines [''PTD export'', ''Tendon No. 7'', ''Tendon No. 3'']"
  have n: "match_tendon_no (strip ''PTD export'') = None" by (rule header_lines_7_3(3))
  have pre: "parse_line initial_state ''PTD export'' = Inr initial_state"
    using n by (simp add: parse_line_def initial_state_def Let_def)
  have p: "parse_ptd_text ?T = Inr [new_tendon_data 7, new_tendon_data 3]"
    by (simp add: parse_ptd_text_def text_of_lines_def pre)
       (simp add: initial_state_def header_lines_7_3 finish_def)
  from one_record_per_header [of ?T "[new_tendon_data 7, new_tendon_data 3]" "[''PTD export'']"] p n
  show ?thesis by simp
qed

section \<open>The convex hull (convex_hull of lib/utils/geometry.py)\<close>

subsection \<open>Scan directions and turns\<close>

text \<open>
  The two \<open>for\<close> loops of \<open>convex_hull\<close> scan the sorted points forwards (lower
  chain) and backwards (upper chain).  \<open>ahead up a b\<close>: \<open>b\<close> comes after \<open>a\<close> in a
  scan, forwards in the lexicographic order when \<open>up\<close> holds and backwards otherwise.
\<close>

definition ahead :: "bool \<Rightarrow> point \<Rightarrow> point \<Rightarrow> bool" where
  "ahead up a b = (if up then a < b else b < a)"






definition vec :: "point \<Rightarrow> point \<Rightarrow> point" where
  "vec a b = (fst b - fst a, snd b - snd a)"












subsection \<open>The invariant of a chain\<close>

text \<open>
  A chain \<open>c\<close> built from the scanned points \<open>ys\<close>: it runs from the first to the last
  scanned point in scan order, makes a strict left turn at every inner vertex, and has
  every scanned point on the left of or on each of its edges.
\<close>

definition left_turns :: "point list \<Rightarrow> bool" where
  "left_turns c \<longleftrightarrow> (\<forall>i. i + 2 < length c \<longrightarrow> 0 < cross (c ! i) (c ! (i + 1)) (c ! (i + 2)))"









lemma ahead_trans: "ahead up a b \<Longrightarrow> ahead up b c \<Longrightarrow> ahead up a c"
  by (auto simp: ahead_def)

lemma left_turns_butlast: "left_turns c \<Longrightarrow> left_turns (butlast c)"
  by (auto simp: left_turns_def nth_butlast)















subsection \<open>The closed polygon of the two chains\<close>

































subsection \<open>The hull invariant\<close>















lemma sort3: "sort (remdups [(0, 0), (1, 0), (2, 0 :: real)]) = [(0, 0), (1, 0), (2 :: real, 0)]"
  by (simp add: less_eq_prod_def less_prod_def)











section \<open>Alignment search (lib/revit_backend/alignment.py)\<close>

text \<open>
  A candidate of the search is the tuple \<open>(err, angle_rad, dx, dy)\<close> that the
  function keeps in \<open>best[0]\<close>.  The angle is a finite float, kept as the rational
  number it denotes: the angles of the sweep are sums of floats, and the number of
  passes of the sweep depends on their rounding.  Errors and offsets are real numbers,
  as in the geometry kernel.
\<close>

type_synonym fit = "real \<times> rat \<times> real \<times> real"

subsection \<open>Float arithmetic of the angles\<close>

text \<open>\<open>math.pi\<close>, the float \<open>2 * math.pi\<close> and the constant \<open>pi / 180\<close> of \<open>math.radians\<close>.\<close>

definition math_pi :: rat where
  "math_pi = 884279719003555 / 2 ^ 48"

definition two_pi :: rat where
  "two_pi = 884279719003555 / 2 ^ 47"

definition deg_to_rad :: rat where
  "deg_to_rad = 5030569068109113 / 2 ^ 58"

text \<open>Addition, negation, subtraction, halving and comparison of floats.\<close>

fun float_add :: "pyfloat \<Rightarrow> pyfloat \<Rightarrow> pyfloat" where
  "float_add (Finite a) (Finite b) = round_double (a + b)"
| "float_add NaN _ = NaN"
| "float_add _ NaN = NaN"
| "float_add PosInf NegInf = NaN"
| "float_add NegInf PosInf = NaN"
| "float_add PosInf _ = PosInf"
| "float_add _ PosInf = PosInf"
| "float_add NegInf _ = NegInf"
| "float_add _ NegInf = NegInf"

fun float_neg :: "pyfloat \<Rightarrow> pyfloat" where
  "float_neg (Finite a) = Finite (- a)"
| "float_neg PosInf = NegInf"
| "float_neg NegInf = PosInf"
| "float_neg NaN = NaN"

definition float_sub :: "pyfloat \<Rightarrow> pyfloat \<Rightarrow> pyfloat" where
  "float_sub x y = float_add x (float_neg y)"

text \<open>\<open>x / 2.0\<close>.\<close>

definition float_half :: "pyfloat \<Rightarrow> pyfloat" where
  "float_half x = (case x of Finite a \<Rightarrow> round_double (a / 2) | _ \<Rightarrow> x)"

fun float_less :: "pyfloat \<Rightarrow> pyfloat \<Rightarrow> bool" where
  "float_less (Finite a) (Finite b) = (a < b)"
| "float_less NaN _ = False"
| "float_less _ NaN = False"
| "float_less PosInf _ = False"
| "float_less NegInf NegInf = False"
| "float_less NegInf _ = True"
| "float_less _ PosInf = True"
| "float_less _ NegInf = False"

text \<open>\<open>math.radians(d)\<close> for a finite float \<open>d\<close>: the product \<open>d * (pi / 180)\<close>.\<close>

definition radians :: "rat \<Rightarrow> pyfloat" where
  "radians d = round_double (d * deg_to_rad)"

subsection \<open>The search\<close>

text \<open>\<open>[(x + dx, y + dy) for x, y in pts]\<close>.\<close>

definition shifted :: "point list \<Rightarrow> real \<Rightarrow> real \<Rightarrow> point list" where
  "shifted pts dx dy = map (\<lambda>(x, y). (x + dx, y + dy)) pts"

text \<open>
  Strategy C of \<open>_evaluate\<close>: the two nested loops over the slab vertices and the
  rotated tendon vertices.  They carry \<open>best_local\<close> and the loop variables
  \<open>dx\<close>, \<open>dy\<close>, which strategies D and E read afterwards.
\<close>

definition strategy_c ::
  "point list \<Rightarrow> point list \<Rightarrow> (real \<times> real \<times> real) \<times> real \<times> real \<Rightarrow>
   (real \<times> real \<times> real) \<times> real \<times> real" where
  "strategy_c slab_hull rot_pts s0 =
     foldl (\<lambda>(best_local, dx0, dy0) ((sx, sy), (tx, ty)).
              let dx = sx - tx; dy = sy - ty;
                  err = directed_hausdorff_outside (shifted rot_pts dx dy) slab_hull
              in (if err < fst best_local then (err, dx, dy) else best_local, dx, dy))
           s0 (List.product slab_hull rot_pts)"

text \<open>\<open>_evaluate(angle_rad)\<close> at a finite angle: the new value of \<open>best[0]\<close>.\<close>

definition evaluate :: "point list \<Rightarrow> point list \<Rightarrow> point \<Rightarrow> fit option \<Rightarrow> rat \<Rightarrow> fit option" where
  "evaluate slab_hull tendon_hull tend_cent best angle_rad =
     (let rot_pts = rotate_points tendon_hull (of_rat angle_rad) tend_cent;
          floor_cent = centroid slab_hull;
          dx_a = fst floor_cent - fst tend_cent;
          dy_a = snd floor_cent - snd tend_cent;
          err_a = directed_hausdorff_outside (shifted rot_pts dx_a dy_a) slab_hull;
          local_a = (err_a, dx_a, dy_a);
          tend_bounds = poly_bounds rot_pts;
          slab_bounds = poly_bounds slab_hull;
          dx_b = fst slab_bounds - fst tend_bounds;
          dy_b = fst (snd (snd slab_bounds)) - fst (snd (snd tend_bounds));
          err_b = directed_hausdorff_outside (shifted rot_pts dx_b dy_b) slab_hull;
          local_b = (if err_b < fst local_a then (err_b, dx_b, dy_b) else local_a);
          (local_c, dx_c, dy_c) = strategy_c slab_hull rot_pts (local_b, dx_b, dy_b);
          dx_cx = fst (centroid slab_hull) - fst tend_cent;
          err_cx = directed_hausdorff_outside (shifted rot_pts dx_cx dy_c) slab_hull;
          local_d = (if err_cx < fst local_c then (err_cx, dx_cx, dy_c) else local_c);
          dx_left = fst slab_bounds - fst tend_bounds;
          err_left = directed_hausdorff_outside (shifted rot_pts dx_left dy_c) slab_hull;
          local_e = (if err_left < fst local_d then (err_left, dx_left, dy_c) else local_d);
          (err, dx, dy) = local_e
      in case best of
           None \<Rightarrow> Some (err, angle_rad, dx, dy)
         | Some b \<Rightarrow> if err < fst b then Some (err, angle_rad, dx, dy) else Some b)"

text \<open>
  The call \<open>_evaluate(angle)\<close> with the float \<open>angle\<close>: \<open>rotate\<close> calls
  \<open>math.cos\<close>, which raises \<open>ValueError\<close> at an infinity.  The angles of this
  function are sums and differences of finite floats and of floats that are no NaN, so
  they are no NaN and that branch is not reached (lemma \<open>refine_angles_not_NaN\<close>).
\<close>

definition evaluate_at ::
  "point list \<Rightarrow> point list \<Rightarrow> point \<Rightarrow> fit option \<Rightarrow> pyfloat \<Rightarrow> py_error + fit option" where
  "evaluate_at slab_hull tendon_hull tend_cent best angle =
     (case angle of
        Finite a \<Rightarrow> Inr (evaluate slab_hull tendon_hull tend_cent best a)
      | _ \<Rightarrow> Inl ValueError)"

text \<open>
  The coarse sweep \<open>while angle < 2 * math.pi: _evaluate(angle); angle += step_rad\<close>.
  The loop need not end (a zero step never reaches \<open>2 * math.pi\<close>, and a small step
  is absorbed by the rounding of the sum), so the result is optional: \<open>None\<close> stands
  for a loop that runs forever.
\<close>

partial_function (option) sweep ::
  "point list \<Rightarrow> point list \<Rightarrow> point \<Rightarrow> pyfloat \<Rightarrow> pyfloat \<Rightarrow> fit option \<Rightarrow>
   (py_error + fit option) option" where
  "sweep slab_hull tendon_hull tend_cent step_rad angle best =
     (if float_less angle (Finite two_pi)
      then (case evaluate_at slab_hull tendon_hull tend_cent best angle of
              Inl e \<Rightarrow> Some (Inl e)
            | Inr b \<Rightarrow> sweep slab_hull tendon_hull tend_cent step_rad (float_add angle step_rad) b)
      else Some (Inr best))"

text \<open>The loop \<open>for angle_rad in (...): _evaluate(angle_rad)\<close> over a tuple of angles.\<close>

fun evaluate_all ::
  "point list \<Rightarrow> point list \<Rightarrow> point \<Rightarrow> pyfloat list \<Rightarrow> fit option \<Rightarrow> py_error + fit option" where
  "evaluate_all slab_hull tendon_hull tend_cent [] best = Inr best"
| "evaluate_all slab_hull tendon_hull tend_cent (a # as) best =
     (case evaluate_at slab_hull tendon_hull tend_cent best a of
        Inl e \<Rightarrow> Inl e
      | Inr b \<Rightarrow> evaluate_all slab_hull tendon_hull tend_cent as b)"

text \<open>The refinement around the best angle of the sweep (lines 351-361).\<close>

definition refine_angles :: "rat \<Rightarrow> rat \<Rightarrow> pyfloat list" where
  "refine_angles refine_step_deg best_angle =
     (let refine_rad = radians refine_step_deg; base_ang = Finite best_angle
      in [float_sub base_ang refine_rad, float_add base_ang refine_rad,
          float_sub base_ang (float_half refine_rad), float_add base_ang (float_half refine_rad)])"

definition refine ::
  "point list \<Rightarrow> point list \<Rightarrow> point \<Rightarrow> rat \<Rightarrow> fit \<Rightarrow> py_error + fit option" where
  "refine slab_hull tendon_hull tend_cent refine_step_deg best_tuple =
     evaluate_all slab_hull tendon_hull tend_cent
       (refine_angles refine_step_deg (fst (snd best_tuple))) (Some best_tuple)"

text \<open>The post-process of lines 364-396: snapping the left edges.\<close>

definition snap :: "point list \<Rightarrow> point list \<Rightarrow> point \<Rightarrow> real \<Rightarrow> fit \<Rightarrow> fit" where
  "snap slab_hull tendon_hull tend_cent tolerance_ft best_tuple =
     (let (err, angle_rad, dx, dy) = best_tuple;
          cos_a = cos (of_rat angle_rad); sin_a = sin (of_rat angle_rad);
          ox = fst tend_cent; oy = snd tend_cent;
          trans_tendon = map (\<lambda>(x, y).
                                let tx = x - ox; ty = y - oy;
                                    rx = tx * cos_a - ty * sin_a + ox + dx;
                                    ry = tx * sin_a + ty * cos_a + oy + dy
                                in (rx, ry)) tendon_hull;
          tend_bounds_tx = poly_bounds trans_tendon;
          slab_bounds = poly_bounds slab_hull;
          snap_dx = fst slab_bounds - fst tend_bounds_tx
      in if \<bar>snap_dx\<bar> > 1 / 10 ^ 6
         then let snap_err = directed_hausdorff_outside
                               (map (\<lambda>(x, y). (x + snap_dx, y)) trans_tendon) slab_hull
              in if snap_err \<le> err + tolerance_ft then (snap_err, angle_rad, dx + snap_dx, dy)
                 else (err, angle_rad, dx, dy)
         else (err, angle_rad, dx, dy))"

text \<open>
  The function up to its final decision.  The outcome is \<open>None\<close> where the sweep does
  not end, \<open>Some (Inl e)\<close> where the exception \<open>e\<close> is raised, \<open>Some (Inr None)\<close>
  where the function has returned \<open>None\<close> before the decision, and
  \<open>Some (Inr (Some (err, angle_rad, dx, dy)))\<close> with the tuple after the snap.
  \<open>slab_hull\<close> is what \<open>_collect_combined_floor_hull(doc, view)\<close> gives, with \<open>[]\<close>
  for its \<open>None\<close>; the two angle steps are finite floats.
\<close>

definition best_after_snap ::
  "point list \<Rightarrow> point list \<Rightarrow> rat \<Rightarrow> rat \<Rightarrow> real \<Rightarrow> bool \<Rightarrow> (py_error + fit option) option" where
  "best_after_snap slab_hull tendon_pts angle_step_deg refine_step_deg tolerance_ft allow_rotation =
     (if slab_hull = [] then Some (Inr None)
      else let tendon_hull = convex_hull tendon_pts
           in if tendon_hull = [] then Some (Inr None)
              else let tend_cent = centroid tendon_hull
                   in (case (if allow_rotation
                             then sweep slab_hull tendon_hull tend_cent (radians angle_step_deg)
                                    (Finite 0) None
                             else Some (evaluate_at slab_hull tendon_hull tend_cent None (Finite 0))) of
                         None \<Rightarrow> None
                       | Some (Inl e) \<Rightarrow> Some (Inl e)
                       | Some (Inr None) \<Rightarrow> Some (Inr None)
                       | Some (Inr (Some b)) \<Rightarrow>
                           (case (if allow_rotation
                                  then refine slab_hull tendon_hull tend_cent refine_step_deg b
                                  else Inr (Some b)) of
                              Inl e \<Rightarrow> Some (Inl e)
                            | Inr None \<Rightarrow> Some (Inr None)
                            | Inr (Some b') \<Rightarrow>
                                Some (Inr (Some (snap slab_hull tendon_hull tend_cent tolerance_ft b'))))))"

text \<open>
  \<open>find_best_transform\<close>: \<open>Some (Inr None)\<close> is the returned \<open>None\<close>, and
  \<open>Some (Inr (Some (angle_rad, dx, dy, err)))\<close> the returned tuple.
\<close>

definition find_best_transform ::
  "point list \<Rightarrow> point list \<Rightarrow> rat \<Rightarrow> rat \<Rightarrow> real \<Rightarrow> real \<Rightarrow> bool \<Rightarrow>
   (py_error + (rat \<times> real \<times> real \<times> real) option) option" where
  "find_best_transform slab_hull tendon_pts angle_step_deg refine_step_deg max_error_ft
     tolerance_ft allow_rotation =
     (case best_after_snap slab_hull tendon_pts angle_step_deg refine_step_deg tolerance_ft
             allow_rotation of
        None \<Rightarrow> None
      | Some (Inl e) \<Rightarrow> Some (Inl e)
      | Some (Inr None) \<Rightarrow> Some (Inr None)
      | Some (Inr (Some (err, angle_rad, dx, dy))) \<Rightarrow>
          if err > max_error_ft then Some (Inr None) else Some (Inr (Some (angle_rad, dx, dy, err))))"

text \<open>The angles of the passes of the sweep at the default step of 15 degrees.\<close>

definition default_angles :: "rat list" where
  "default_angles =
     [0,
      4716158501352293 / 18014398509481984,
      4716158501352293 / 9007199254740992,
      884279719003555 / 1125899906842624,
      4716158501352293 / 4503599627370496,
      2947599063345183 / 2251799813685248,
      7074237752028439 / 4503599627370496,
      515829836085407 / 281474976710656,
      4716158501352293 / 2251799813685248,
      2652839157010665 / 1125899906842624,
      5895198126690367 / 2251799813685248,
      1621179484839851 / 562949953421312,
      7074237752028441 / 2251799813685248,
      3831878782348739 / 1125899906842624,
      8253277377366515 / 2251799813685248,
      276337412188611 / 70368744177664,
      2358079250676147 / 562949953421312,
      1252729601921703 / 281474976710656,
      2652839157010665 / 562949953421312,
      700054777544481 / 140737488355328,
      2947599063345183 / 562949953421312,
      1547489508256221 / 281474976710656,
      3242358969679701 / 562949953421312,
      211858682677935 / 35184372088832,
      3537118876014219 / 562949953421312]"


text \<open>
  The error of a transform \<open>(angle_rad, dx, dy)\<close>: the tendon hull, rotated about its
  centroid and shifted, against the slab hull.
\<close>

definition transform_error :: "point list \<Rightarrow> point list \<Rightarrow> rat \<Rightarrow> real \<Rightarrow> real \<Rightarrow> real" where
  "transform_error slab_hull tendon_hull angle_rad dx dy =
     directed_hausdorff_outside
       (shifted (rotate_points tendon_hull (of_rat angle_rad) (centroid tendon_hull)) dx dy) slab_hull"

text \<open>
  A candidate \<open>(err, dx, dy)\<close> of \<open>_evaluate\<close>, and a candidate
  \<open>(err, angle_rad, dx, dy)\<close> of the search, carry the error of their own shift.
\<close>

definition local_ok :: "point list \<Rightarrow> point list \<Rightarrow> real \<times> real \<times> real \<Rightarrow> bool" where
  "local_ok slab_hull rot_pts l \<longleftrightarrow>
     fst l = directed_hausdorff_outside (shifted rot_pts (fst (snd l)) (snd (snd l))) slab_hull"

definition fit_ok :: "point list \<Rightarrow> point list \<Rightarrow> point \<Rightarrow> fit \<Rightarrow> bool" where
  "fit_ok slab_hull tendon_hull tend_cent b \<longleftrightarrow>
     fst b = directed_hausdorff_outside
               (shifted (rotate_points tendon_hull (of_rat (fst (snd b))) tend_cent)
                  (fst (snd (snd b))) (snd (snd (snd b)))) slab_hull"


subsection \<open>Bounds on the rounding to binary64\<close>

lemma round_half_even_bounds:
  "of_int \<lfloor>r\<rfloor> \<le> (of_int (round_half_even r) :: rat)"
  "\<bar>of_int (round_half_even r) - r\<bar> \<le> 1 / 2"
proof -
  define f where "f = \<lfloor>r\<rfloor>"
  have f: "of_int f \<le> r" "r < of_int f + 1" using floor_correct [of r] by (simp_all add: f_def)
  show "of_int \<lfloor>r\<rfloor> \<le> (of_int (round_half_even r) :: rat)"
    by (simp add: round_half_even_def Let_def)
  show "\<bar>of_int (round_half_even r) - r\<bar> \<le> 1 / 2"
    using f by (auto simp: round_half_even_def Let_def f_def [symmetric] abs_le_iff)
qed

lemma floor_log2_less:
  assumes "0 < x" "x < 2 powi j"
  shows "floor_log2 x < j"
proof -
  from floor_log2_bounds [OF assms(1)] assms(2)
  have "(2::rat) powi floor_log2 x < 2 powi j" by simp
  then show ?thesis by (rule powi_strict2)
qed

lemma floor_log2_ge:
  assumes "2 powi k \<le> x"
  shows "k \<le> floor_log2 x"
proof -
  have x: "0 < x" using assms by (rule less_le_trans [rotated]) (simp add: zero_less_power_int)
  from floor_log2_bounds [OF x] assms
  have "(2::rat) powi k < 2 powi (floor_log2 x + 1)" by simp
  then have "k < floor_log2 x + 1" by (rule powi_strict2)
  then show ?thesis by simp
qed

text \<open>
  Rounding a positive number below \<open>2 ^ j\<close>: the result is finite and differs by at
  most half a unit in the last place of that range.
\<close>

lemma round_double_near:
  assumes x: "0 < x" and lt: "x < 2 powi j" and j: "- 1021 \<le> j" "j \<le> 1023"
  shows "\<exists>y. round_double x = Finite y \<and> \<bar>y - x\<bar> \<le> 2 powi (j - 54)"
proof -
  define e where "e = max (floor_log2 x - 52) (- 1074)"
  define v :: rat where "v = of_int (round_half_even (x / 2 powi e)) * 2 powi e"
  have pe: "(0::rat) < 2 powi e" by (simp add: zero_less_power_int)
  have "floor_log2 x < j" using x lt by (rule floor_log2_less)
  with j have e: "e \<le> j - 53" by (simp add: e_def)
  have "\<bar>v - x\<bar> = \<bar>of_int (round_half_even (x / 2 powi e)) - x / 2 powi e\<bar> * 2 powi e"
  proof -
    have "v - x = (of_int (round_half_even (x / 2 powi e)) - x / 2 powi e) * 2 powi e"
      using pe by (simp add: v_def left_diff_distrib)
    then show ?thesis using pe by (simp add: abs_mult)
  qed
  also have "\<dots> \<le> (1 / 2) * 2 powi e"
    using pe round_half_even_bounds(2) [of "x / 2 powi e"] by (intro mult_right_mono) simp_all
  also have "\<dots> = 2 powi (e - 1)" by (simp add: power_int_diff)
  also have "\<dots> \<le> 2 powi (j - 54)" using e by (intro powi_mono2) simp
  finally have err: "\<bar>v - x\<bar> \<le> 2 powi (j - 54)" .
  have "(2::rat) powi (j - 54) \<le> 2 powi j" by (intro powi_mono2) simp
  with err lt have "v < 2 powi j + 2 powi j" by (simp add: abs_le_iff)
  also have "\<dots> = 2 powi (j + 1)" by (simp add: power_int_add)
  also have "\<dots> \<le> 2 powi 1024" using j by (intro powi_mono2) simp
  finally have "v < 2 ^ 1024" by simp
  then have nov: "(2 ^ 1024 \<le> v) = False" by simp
  have ne: "(x = 0) = False" "(x < 0) = False" "\<bar>x\<bar> = x" using x by simp_all
  have "round_double x = Finite v"
    by (simp only: round_double_def Let_def ne e_def [symmetric] v_def [symmetric] nov if_False)
  with err show ?thesis by blast
qed

text \<open>Rounding does not go below a power of two that the number reaches.\<close>

lemma round_double_lower:
  assumes ge: "2 powi k \<le> x" and k: "- 1074 \<le> k"
  shows "round_double x = PosInf \<or> (\<exists>y. round_double x = Finite y \<and> 2 powi k \<le> y)"
proof -
  have x: "0 < x" using ge by (rule less_le_trans [rotated]) (simp add: zero_less_power_int)
  define L where "L = floor_log2 x"
  define e where "e = max (L - 52) (- 1074)"
  define v :: rat where "v = of_int (round_half_even (x / 2 powi e)) * 2 powi e"
  have pe: "(0::rat) < 2 powi e" by (simp add: zero_less_power_int)
  have kL: "k \<le> L" unfolding L_def using ge by (rule floor_log2_ge)
  with k have eL: "e \<le> L" by (simp add: e_def)
  have "(2::rat) powi L \<le> x" using floor_log2_bounds [OF x] by (simp add: L_def)
  then have "(2::rat) powi L / 2 powi e \<le> x / 2 powi e" using pe by (simp add: divide_right_mono)
  moreover have d: "(2::rat) powi (L - e) = of_int (2 ^ nat (L - e))"
    using eL by (simp add: power_int_def)
  moreover have "(2::rat) powi L / 2 powi e = 2 powi (L - e)"
    by (simp add: power_int_diff)
  ultimately have "of_int (2 ^ nat (L - e)) \<le> x / 2 powi e" by simp
  then have "2 ^ nat (L - e) \<le> \<lfloor>x / 2 powi e\<rfloor>" by (simp only: le_floor_iff)
  then have "(of_int (2 ^ nat (L - e)) :: rat) \<le> of_int \<lfloor>x / 2 powi e\<rfloor>" by (simp only: of_int_le_iff)
  also have "\<dots> \<le> of_int (round_half_even (x / 2 powi e))" by (rule round_half_even_bounds(1))
  finally have "of_int (2 ^ nat (L - e)) * 2 powi e \<le> v"
    using pe unfolding v_def by (intro mult_right_mono) simp_all
  moreover have "(of_int (2 ^ nat (L - e)) :: rat) * 2 powi e = 2 powi L"
    unfolding d [symmetric] by (simp add: power_int_add [symmetric])
  ultimately have "2 powi L \<le> v" by simp
  moreover have "(2::rat) powi k \<le> 2 powi L" using kL by (rule powi_mono2)
  ultimately have lo: "2 powi k \<le> v" by simp
  have ne: "(x = 0) = False" "(x < 0) = False" "\<bar>x\<bar> = x" using x by simp_all
  have "round_double x = (if 2 ^ 1024 \<le> v then PosInf else Finite v)"
    by (simp only: round_double_def Let_def ne L_def [symmetric] e_def [symmetric] v_def [symmetric] if_False)
  with lo show ?thesis by auto
qed

subsection \<open>The float constants\<close>

lemma math_pi_double: "round_double math_pi = Finite math_pi"
  unfolding math_pi_def
  by (rule round_double_exact [where e = "- 51" and m = 7074237752028440])
     (simp_all add: power_int_minus)

lemma two_pi_double: "round_double (2 * math_pi) = Finite two_pi"
proof -
  have "round_double two_pi = Finite two_pi"
    unfolding two_pi_def
    by (rule round_double_exact [where e = "- 50" and m = 7074237752028440])
       (simp_all add: power_int_minus)
  moreover have "2 * math_pi = two_pi" by (simp add: math_pi_def two_pi_def)
  ultimately show ?thesis by simp
qed

lemma deg_to_rad_double: "round_double (math_pi / 180) = Finite deg_to_rad"
proof -
  have "round_double (math_pi / 180) = Finite (of_int 5030569068109113 * 2 powi (- 58))"
    unfolding math_pi_def
    by (rule round_double_eval) (simp_all add: power_int_minus)
  then show ?thesis by (simp add: deg_to_rad_def power_int_minus)
qed

lemma two_pi_bounds: "6 < two_pi" "two_pi < 7"
  by (simp_all add: two_pi_def)

lemma deg_to_rad_bounds: "1 / 64 \<le> deg_to_rad" "deg_to_rad \<le> 1 / 50"
  by (simp_all add: deg_to_rad_def)

subsection \<open>Rounding of sums\<close>

lemma round_double_not_NaN: "round_double q \<noteq> NaN"
  by (simp add: round_double_def Let_def)

lemma round_double_minus: "round_double (- q) = float_neg (round_double q)"
  by (cases "q = 0"; cases "q < 0") (simp_all add: round_double_def Let_def)

lemma round_double_small:
  assumes lt: "\<bar>x\<bar> < 2 powi j" and j: "- 1021 \<le> j" "j \<le> 1022"
  shows "\<exists>y. round_double x = Finite y \<and> \<bar>y\<bar> < 2 powi (j + 1)"
proof -
  have pos: "\<exists>y. round_double z = Finite y \<and> \<bar>y\<bar> < 2 powi (j + 1)" if z: "0 < z" "z < 2 powi j" for z
  proof -
    from j have "j \<le> 1023" by simp
    from round_double_near [OF z j(1) this]
    obtain y where y: "round_double z = Finite y" "\<bar>y - z\<bar> \<le> 2 powi (j - 54)" by blast
    have "(2::rat) powi (j - 54) \<le> 2 powi j" by (intro powi_mono2) simp
    moreover have "(0::rat) < 2 powi j" by (simp add: zero_less_power_int)
    ultimately have "\<bar>y\<bar> < 2 powi j + 2 powi j" using y(2) z by linarith
    also have "\<dots> = 2 powi (j + 1)" by (simp add: power_int_add)
    finally show ?thesis using y(1) by blast
  qed
  consider "x = 0" | "0 < x" | "x < 0" by linarith
  then show ?thesis
  proof cases
    case 1
    then show ?thesis by (simp add: round_double_def zero_less_power_int)
  next
    case 2
    with lt show ?thesis by (intro pos) simp_all
  next
    case 3
    with lt have "0 < - x" "- x < 2 powi j" by simp_all
    from pos [OF this] obtain y where "round_double (- x) = Finite y" "\<bar>y\<bar> < 2 powi (j + 1)" by blast
    then have "round_double x = Finite (- y) \<and> \<bar>- y\<bar> < 2 powi (j + 1)"
      by (cases "round_double x") (simp_all add: round_double_minus)
    then show ?thesis by blast
  qed
qed

text \<open>One pass of the sweep moves the angle forwards, by at least \<open>2 ^ -17\<close>.\<close>

lemma next_angle:
  assumes st: "step = PosInf \<or> (\<exists>s. step = Finite s \<and> 1 / 2 ^ 16 \<le> s)"
    and a: "0 \<le> a" "a < two_pi"
  shows "float_add (Finite a) step = PosInf \<or>
         (\<exists>y. float_add (Finite a) step = Finite y \<and> a + 1 / 2 ^ 17 \<le> y)"
  using st
proof
  assume "step = PosInf"
  then show ?thesis by simp
next
  assume "\<exists>s. step = Finite s \<and> 1 / 2 ^ 16 \<le> s"
  then obtain s where s: "step = Finite s" "1 / 2 ^ 16 \<le> s" by blast
  define x where "x = a + s"
  have x: "1 / 2 ^ 16 \<le> x" using s(2) a(1) by (simp add: x_def)
  then have xpos: "0 < x" by (rule less_le_trans [rotated]) simp
  have add: "float_add (Finite a) step = round_double x" by (simp add: s(1) x_def)
  show ?thesis
  proof (cases "x < 8")
    case True
    then have "x < 2 powi 3" by simp
    from round_double_near [OF xpos this]
    obtain y where y: "round_double x = Finite y" "\<bar>y - x\<bar> \<le> 2 powi (3 - 54)" by auto
    have "(2::rat) powi (3 - 54) = 1 / 2 ^ 51" by (simp add: power_int_minus)
    with y(2) have "\<bar>y - x\<bar> \<le> 1 / 2 ^ 51" by (simp only:)
    then have "x - 1 / 2 ^ 51 \<le> y" by linarith
    moreover have "a + 1 / 2 ^ 16 \<le> x" using s(2) by (simp add: x_def)
    ultimately have "a + 1 / 2 ^ 17 \<le> y" by simp
    with y(1) add show ?thesis by simp
  next
    case False
    then have "2 powi 3 \<le> x" by simp
    from round_double_lower [OF this]
    have "round_double x = PosInf \<or> (\<exists>y. round_double x = Finite y \<and> 8 \<le> y)" by simp
    moreover have "a + 1 / 2 ^ 17 \<le> 8" using a(2) two_pi_bounds(2) by simp
    ultimately show ?thesis unfolding add by force
  qed
qed

subsection \<open>Termination of the sweep\<close>

lemma evaluate_Some: "\<exists>b. evaluate slab_hull tendon_hull tend_cent best angle = Some b"
  by (auto simp: evaluate_def Let_def split: prod.splits option.splits)

lemma evaluate_angle:
  assumes "evaluate slab_hull tendon_hull tend_cent best angle = Some b"
  shows "fst (snd b) = angle \<or> best = Some b"
  using assms by (auto simp: evaluate_def Let_def split: prod.splits option.splits if_splits)

lemma sweep_exit:
  assumes "\<not> float_less angle (Finite two_pi)"
  shows "sweep slab_hull tendon_hull tend_cent step angle best = Some (Inr best)"
  using assms by (subst sweep.simps) simp

lemma sweep_pass:
  assumes "a < two_pi"
  shows "sweep slab_hull tendon_hull tend_cent step (Finite a) best
           = sweep slab_hull tendon_hull tend_cent step (float_add (Finite a) step)
               (evaluate slab_hull tendon_hull tend_cent best a)"
  using assms by (subst sweep.simps) (simp add: evaluate_at_def)

text \<open>
  The sweep ends when its step is at least \<open>2 ^ -16\<close>: the angle grows by at least
  \<open>2 ^ -17\<close> in every pass.  The angle of the best candidate is one of the angles
  of the passes, a float in \<open>[0, 2 * math.pi)\<close>.
\<close>

lemma sweep_ends:
  assumes st: "step = PosInf \<or> (\<exists>s. step = Finite s \<and> 1 / 2 ^ 16 \<le> s)"
  shows "two_pi - a \<le> of_nat n / 2 ^ 17 \<Longrightarrow> 0 \<le> a \<Longrightarrow>
         (\<forall>b0. best = Some b0 \<longrightarrow> 0 \<le> fst (snd b0) \<and> fst (snd b0) < two_pi) \<Longrightarrow>
         \<exists>b. sweep slab_hull tendon_hull tend_cent step (Finite a) best = Some (Inr b) \<and>
             (a < two_pi \<or> best \<noteq> None \<longrightarrow> b \<noteq> None) \<and>
             (\<forall>b1. b = Some b1 \<longrightarrow> 0 \<le> fst (snd b1) \<and> fst (snd b1) < two_pi)"
proof (induction n arbitrary: a best)
  case 0
  then have "\<not> float_less (Finite a) (Finite two_pi)" by simp
  from sweep_exit [OF this] 0 show ?case by simp
next
  case (Suc n)
  show ?case
  proof (cases "a < two_pi")
    case False
    then have "\<not> float_less (Finite a) (Finite two_pi)" by simp
    from sweep_exit [OF this] Suc.prems False show ?thesis by simp
  next
    case True
    obtain b' where b': "evaluate slab_hull tendon_hull tend_cent best a = Some b'"
      using evaluate_Some by blast
    have ang: "0 \<le> fst (snd b') \<and> fst (snd b') < two_pi"
    proof (rule disjE [OF evaluate_angle [OF b']])
      assume "fst (snd b') = a"
      then show ?thesis using Suc.prems(2) True by simp
    next
      assume "best = Some b'"
      with Suc.prems(3) show ?thesis by blast
    qed
    note pass = sweep_pass [OF True, of slab_hull tendon_hull tend_cent step best, unfolded b']
    from next_angle [OF st Suc.prems(2) True] show ?thesis
    proof
      assume inf: "float_add (Finite a) step = PosInf"
      have "\<not> float_less PosInf (Finite two_pi)" by simp
      from sweep_exit [OF this, of slab_hull tendon_hull tend_cent step "Some b'"]
      have "sweep slab_hull tendon_hull tend_cent step (Finite a) best = Some (Inr (Some b'))"
        by (simp only: pass inf)
      moreover have "Some b' \<noteq> None" by simp
      moreover have "\<forall>b1. Some b' = Some b1 \<longrightarrow> 0 \<le> fst (snd b1) \<and> fst (snd b1) < two_pi"
        using ang by blast
      ultimately show ?thesis by (intro exI [of _ "Some b'"] conjI impI)
    next
      assume "\<exists>y. float_add (Finite a) step = Finite y \<and> a + 1 / 2 ^ 17 \<le> y"
      then obtain y where y: "float_add (Finite a) step = Finite y" "a + 1 / 2 ^ 17 \<le> y" by blast
      have "two_pi - y \<le> two_pi - a - 1 / 2 ^ 17" using y(2) by simp
      also have "\<dots> \<le> of_nat (Suc n) / 2 ^ 17 - 1 / 2 ^ 17" using Suc.prems(1) by simp
      also have "\<dots> = of_nat n / 2 ^ 17" by (simp add: field_simps)
      finally have m: "two_pi - y \<le> of_nat n / 2 ^ 17" .
      have y0: "0 \<le> y" using y(2) Suc.prems(2) by simp
      have "\<forall>b0. Some b' = Some b0 \<longrightarrow> 0 \<le> fst (snd b0) \<and> fst (snd b0) < two_pi"
        using ang by blast
      from Suc.IH [OF m y0 this]
      obtain b where r: "sweep slab_hull tendon_hull tend_cent step (Finite y) (Some b') = Some (Inr b)"
        "y < two_pi \<or> Some b' \<noteq> None \<longrightarrow> b \<noteq> None"
        "\<forall>b1. b = Some b1 \<longrightarrow> 0 \<le> fst (snd b1) \<and> fst (snd b1) < two_pi"
        by (elim exE conjE)
      from r(2) have nn: "b \<noteq> None" by simp
      from r(1) have "sweep slab_hull tendon_hull tend_cent step (Finite a) best = Some (Inr b)"
        by (simp only: pass y(1))
      with nn r(3) show ?thesis by (intro exI [of _ b] conjI impI)
    qed
  qed
qed

lemma sweep_from_zero:
  assumes st: "step = PosInf \<or> (\<exists>s. step = Finite s \<and> 1 / 2 ^ 16 \<le> s)"
  shows "\<exists>b. sweep slab_hull tendon_hull tend_cent step (Finite 0) None = Some (Inr (Some b)) \<and>
             0 \<le> fst (snd b) \<and> fst (snd b) < two_pi"
proof -
  obtain n :: nat where "two_pi * 2 ^ 17 \<le> of_nat n"
    using real_arch_simple by blast
  then have "two_pi - 0 \<le> of_nat n / 2 ^ 17" by (simp add: field_simps)
  from sweep_ends [OF st this, of None slab_hull tendon_hull tend_cent] two_pi_bounds
  show ?thesis by auto
qed

text \<open>Whatever the step: a sweep that ends has made a pass, so \<open>best[0]\<close> is set.\<close>

lemma sweep_result:
  assumes "sweep slab_hull tendon_hull tend_cent step angle best = Some y"
  shows "\<forall>b. y = Inr b \<longrightarrow> float_less angle (Finite two_pi) \<or> best \<noteq> None \<longrightarrow> b \<noteq> None"
proof (rule sweep.raw_induct
         [where P = "\<lambda>S T c step ang bst y.
            \<forall>b. y = Inr b \<longrightarrow> float_less ang (Finite two_pi) \<or> bst \<noteq> None \<longrightarrow> b \<noteq> None", OF _ assms])
  fix sweep' S T c step ang bst y
  assume IH: "\<And>S T c step ang bst y. sweep' S T c step ang bst = Some y \<Longrightarrow>
                 \<forall>b. y = Inr b \<longrightarrow> float_less ang (Finite two_pi) \<or> bst \<noteq> None \<longrightarrow> b \<noteq> None"
    and eq: "(if float_less ang (Finite two_pi)
              then (case evaluate_at S T c bst ang of
                      Inl e \<Rightarrow> Some (Inl e)
                    | Inr b \<Rightarrow> sweep' S T c step (float_add ang step) b)
              else Some (Inr bst)) = Some y"
  show "\<forall>b. y = Inr b \<longrightarrow> float_less ang (Finite two_pi) \<or> bst \<noteq> None \<longrightarrow> b \<noteq> None"
  proof (cases "float_less ang (Finite two_pi)")
    case False
    with eq show ?thesis by auto
  next
    case True
    show ?thesis
    proof (cases "evaluate_at S T c bst ang")
      case (Inl e)
      with eq True show ?thesis by auto
    next
      case (Inr b')
      then have "b' \<noteq> None"
        using evaluate_Some [of S T c bst] by (auto simp: evaluate_at_def split: pyfloat.splits)
      moreover from eq True Inr have "sweep' S T c step (float_add ang step) b' = Some y" by simp
      ultimately show ?thesis using IH by blast
    qed
  qed
qed

text \<open>With a zero step the angle stays at \<open>0.0\<close> and the sweep never ends.\<close>

lemma sweep_zero_step:
  "sweep slab_hull tendon_hull tend_cent (Finite 0) (Finite 0) best = None"
proof (cases "sweep slab_hull tendon_hull tend_cent (Finite 0) (Finite 0) best")
  case None
  then show ?thesis .
next
  case (Some y)
  have "\<not> (Finite 0 = Finite (0::rat) \<and> Finite 0 = Finite (0::rat))"
  proof (rule sweep.raw_induct
           [where P = "\<lambda>S T c step ang bst y. \<not> (step = Finite 0 \<and> ang = Finite 0)", OF _ Some])
    fix sweep' S T c step ang bst y
    assume IH: "\<And>S T c step ang bst y. sweep' S T c step ang bst = Some y \<Longrightarrow>
                   \<not> (step = Finite 0 \<and> ang = Finite 0)"
      and eq: "(if float_less ang (Finite two_pi)
                then (case evaluate_at S T c bst ang of
                        Inl e \<Rightarrow> Some (Inl e)
                      | Inr b \<Rightarrow> sweep' S T c step (float_add ang step) b)
                else Some (Inr bst)) = Some y"
    show "\<not> (step = Finite 0 \<and> ang = Finite 0)"
    proof
      assume a: "step = Finite 0 \<and> ang = Finite 0"
      have "float_less (Finite 0) (Finite two_pi)" using two_pi_bounds by simp
      with eq a have "sweep' S T c (Finite 0) (Finite 0) (evaluate S T c bst 0) = Some y"
        by (simp add: evaluate_at_def round_double_0)
      from IH [OF this] show False by simp
    qed
  qed
  then show ?thesis by simp
qed

lemma radians_step:
  assumes "1 / 1000 \<le> a"
  shows "radians a = PosInf \<or> (\<exists>s. radians a = Finite s \<and> 1 / 2 ^ 16 \<le> s)"
proof -
  have "1 / 1000 * (1 / 64) \<le> a * deg_to_rad"
    using assms deg_to_rad_bounds(1) by (intro mult_mono) simp_all
  then have "2 powi (- 16) \<le> a * deg_to_rad" by (simp add: power_int_minus)
  from round_double_lower [OF this] show ?thesis
    by (simp add: radians_def power_int_minus)
qed

lemma radians_small:
  assumes "\<bar>r\<bar> \<le> 360"
  shows "\<exists>rr. radians r = Finite rr \<and> \<bar>rr\<bar> < 16"
proof -
  have "\<bar>r * deg_to_rad\<bar> = \<bar>r\<bar> * deg_to_rad"
    using deg_to_rad_bounds(1) by (simp add: abs_mult)
  also have "\<dots> \<le> 360 * (1 / 50)"
    using assms deg_to_rad_bounds by (intro mult_mono) simp_all
  finally have "\<bar>r * deg_to_rad\<bar> < 2 powi 3" by simp
  from round_double_small [OF this] show ?thesis by (simp add: radians_def)
qed

lemma round_double_sum:
  assumes "\<bar>b\<bar> < 7" "\<bar>x\<bar> < 16"
  shows "\<exists>y. round_double (b + x) = Finite y" "\<exists>y. round_double (b - x) = Finite y"
proof -
  have "\<bar>b + x\<bar> < 2 powi 5" "\<bar>b - x\<bar> < 2 powi 5" using assms by simp_all
  from round_double_small [OF this(1)] round_double_small [OF this(2)]
  show "\<exists>y. round_double (b + x) = Finite y" "\<exists>y. round_double (b - x) = Finite y" by auto
qed

lemma refine_angles_finite:
  assumes r: "\<bar>r\<bar> \<le> 360" and b: "0 \<le> b" "b < two_pi"
  shows "\<exists>a1 a2 a3 a4. refine_angles r b = [Finite a1, Finite a2, Finite a3, Finite a4]"
proof -
  from radians_small [OF r] obtain rr where rr: "radians r = Finite rr" "\<bar>rr\<bar> < 16" by blast
  have "\<bar>rr / 2\<bar> < 2 powi 3" using rr(2) by simp
  from round_double_small [OF this] obtain hh where hh: "round_double (rr / 2) = Finite hh" "\<bar>hh\<bar> < 16"
    by auto
  have b7: "\<bar>b\<bar> < 7" using b two_pi_bounds(2) by simp
  from round_double_sum [OF b7 rr(2)] obtain a1 a2 where
    a12: "round_double (b - rr) = Finite a1" "round_double (b + rr) = Finite a2" by blast
  from round_double_sum [OF b7 hh(2)] obtain a3 a4 where
    a34: "round_double (b - hh) = Finite a3" "round_double (b + hh) = Finite a4" by blast
  have "refine_angles r b = [Finite a1, Finite a2, Finite a3, Finite a4]"
    by (simp add: refine_angles_def Let_def rr(1) float_sub_def float_half_def hh(1) a12 a34)
  then show ?thesis by blast
qed

lemma float_add_NaN: "float_add (Finite b) y = NaN \<longleftrightarrow> y = NaN"
  by (cases y) (simp_all add: round_double_not_NaN)

lemma float_neg_NaN: "float_neg y = NaN \<longleftrightarrow> y = NaN"
  by (cases y) simp_all

lemma float_half_NaN: "float_half y = NaN \<longleftrightarrow> y = NaN"
  by (cases y) (simp_all add: float_half_def round_double_not_NaN)

lemma refine_angles_not_NaN: "NaN \<notin> set (refine_angles r b)"
proof -
  have r: "radians r \<noteq> NaN" by (simp add: radians_def round_double_not_NaN)
  then have h: "float_half (radians r) \<noteq> NaN" by (simp add: float_half_NaN)
  have e: "float_add (Finite b) (float_neg (radians r)) \<noteq> NaN"
    "float_add (Finite b) (radians r) \<noteq> NaN"
    "float_add (Finite b) (float_neg (float_half (radians r))) \<noteq> NaN"
    "float_add (Finite b) (float_half (radians r)) \<noteq> NaN"
    using r h by (simp_all add: float_add_NaN float_neg_NaN)
  show ?thesis
    using e [symmetric] by (simp add: refine_angles_def Let_def float_sub_def)
qed

lemma evaluate_at_Inr:
  assumes "evaluate_at slab_hull tendon_hull tend_cent best angle = Inr x"
  shows "x \<noteq> None"
  using assms evaluate_Some [of slab_hull tendon_hull tend_cent best]
  by (auto simp: evaluate_at_def split: pyfloat.splits)

lemma evaluate_all_Inr:
  "evaluate_all slab_hull tendon_hull tend_cent as best = Inr x \<Longrightarrow> best \<noteq> None \<Longrightarrow> x \<noteq> None"
proof (induction as arbitrary: best)
  case Nil
  then show ?case by simp
next
  case (Cons a as)
  show ?case
  proof (cases "evaluate_at slab_hull tendon_hull tend_cent best a")
    case (Inl e)
    with Cons.prems(1) show ?thesis by simp
  next
    case (Inr b)
    then have "b \<noteq> None" by (rule evaluate_at_Inr)
    moreover from Cons.prems(1) Inr have "evaluate_all slab_hull tendon_hull tend_cent as b = Inr x"
      by simp
    ultimately show ?thesis by (rule Cons.IH [rotated])
  qed
qed

lemma evaluate_all_finite:
  "\<forall>x\<in>set as. \<exists>a. x = Finite a \<Longrightarrow>
   \<exists>x. evaluate_all slab_hull tendon_hull tend_cent as best = Inr x"
proof (induction as arbitrary: best)
  case Nil
  show ?case by simp
next
  case (Cons a as)
  from Cons.prems obtain q where q: "a = Finite q" by auto
  from Cons.prems have "\<forall>x\<in>set as. \<exists>a. x = Finite a" by simp
  from Cons.IH [OF this, of "evaluate slab_hull tendon_hull tend_cent best q"]
  show ?case by (simp add: q evaluate_at_def)
qed

lemma refine_cases:
  "(\<exists>e. refine slab_hull tendon_hull tend_cent r b = Inl e) \<or>
   (\<exists>b'. refine slab_hull tendon_hull tend_cent r b = Inr (Some b'))"
proof (cases "refine slab_hull tendon_hull tend_cent r b")
  case (Inl e)
  then show ?thesis by blast
next
  case (Inr x)
  then have "x \<noteq> None" unfolding refine_def by (rule evaluate_all_Inr) simp
  with Inr show ?thesis by auto
qed

lemma refine_returns:
  assumes "\<bar>r\<bar> \<le> 360" "0 \<le> fst (snd b)" "fst (snd b) < two_pi"
  shows "\<exists>b'. refine slab_hull tendon_hull tend_cent r b = Inr (Some b')"
proof -
  from refine_angles_finite [OF assms]
  have "\<forall>x\<in>set (refine_angles r (fst (snd b))). \<exists>a. x = Finite a" by auto
  from evaluate_all_finite [OF this, of slab_hull tendon_hull tend_cent "Some b"]
  obtain x where "refine slab_hull tendon_hull tend_cent r b = Inr x" by (auto simp: refine_def)
  with refine_cases [of slab_hull tendon_hull tend_cent r b] show ?thesis by auto
qed

subsection \<open>The error that a candidate carries\<close>

lemma strategy_c_ok:
  "local_ok slab_hull rot_pts (fst s0) \<Longrightarrow>
   local_ok slab_hull rot_pts (fst (foldl (\<lambda>(best_local, dx0, dy0) ((sx, sy), (tx, ty)).
              let dx = sx - tx; dy = sy - ty;
                  err = directed_hausdorff_outside (shifted rot_pts dx dy) slab_hull
              in (if err < fst best_local then (err, dx, dy) else best_local, dx, dy)) s0 ps))"
proof (induction ps arbitrary: s0)
  case Nil
  then show ?case by simp
next
  case (Cons p ps)
  show ?case
    unfolding foldl_Cons
    by (rule Cons.IH) (use Cons.prems in \<open>auto simp: local_ok_def Let_def split: prod.splits\<close>)
qed

lemma evaluate_fit_ok:
  assumes best: "\<forall>b. best = Some b \<longrightarrow> fit_ok slab_hull tendon_hull tend_cent b"
    and ev: "evaluate slab_hull tendon_hull tend_cent best angle = Some b'"
  shows "fit_ok slab_hull tendon_hull tend_cent b'"
proof -
  define rot_pts where "rot_pts = rotate_points tendon_hull (of_rat angle) tend_cent"
  define floor_cent where "floor_cent = centroid slab_hull"
  define dx_a where "dx_a = fst floor_cent - fst tend_cent"
  define dy_a where "dy_a = snd floor_cent - snd tend_cent"
  define local_a where "local_a = (directed_hausdorff_outside (shifted rot_pts dx_a dy_a) slab_hull, dx_a, dy_a)"
  define dx_b where "dx_b = fst (poly_bounds slab_hull) - fst (poly_bounds rot_pts)"
  define dy_b where "dy_b = fst (snd (snd (poly_bounds slab_hull))) - fst (snd (snd (poly_bounds rot_pts)))"
  define err_b where "err_b = directed_hausdorff_outside (shifted rot_pts dx_b dy_b) slab_hull"
  define local_b where "local_b = (if err_b < fst local_a then (err_b, dx_b, dy_b) else local_a)"
  define sc where "sc = strategy_c slab_hull rot_pts (local_b, dx_b, dy_b)"
  define local_c where "local_c = fst sc"
  define dy_c where "dy_c = snd (snd sc)"
  define dx_cx where "dx_cx = fst (centroid slab_hull) - fst tend_cent"
  define err_cx where "err_cx = directed_hausdorff_outside (shifted rot_pts dx_cx dy_c) slab_hull"
  define local_d where "local_d = (if err_cx < fst local_c then (err_cx, dx_cx, dy_c) else local_c)"
  define dx_left where "dx_left = fst (poly_bounds slab_hull) - fst (poly_bounds rot_pts)"
  define err_left where "err_left = directed_hausdorff_outside (shifted rot_pts dx_left dy_c) slab_hull"
  define local_e where "local_e = (if err_left < fst local_d then (err_left, dx_left, dy_c) else local_d)"
  have a: "local_ok slab_hull rot_pts local_a" by (simp add: local_ok_def local_a_def)
  then have b: "local_ok slab_hull rot_pts local_b" by (simp add: local_ok_def local_b_def err_b_def)
  then have c: "local_ok slab_hull rot_pts local_c"
    unfolding local_c_def sc_def strategy_c_def by (intro strategy_c_ok) simp
  then have d: "local_ok slab_hull rot_pts local_d" by (simp add: local_ok_def local_d_def err_cx_def)
  then have e: "local_ok slab_hull rot_pts local_e" by (simp add: local_ok_def local_e_def err_left_def)
  have new: "fit_ok slab_hull tendon_hull tend_cent (fst local_e, angle, fst (snd local_e), snd (snd local_e))"
    using e by (simp add: fit_ok_def local_ok_def rot_pts_def)
  have "evaluate slab_hull tendon_hull tend_cent best angle =
          (case best of
             None \<Rightarrow> Some (fst local_e, angle, fst (snd local_e), snd (snd local_e))
           | Some b \<Rightarrow> if fst local_e < fst b
                        then Some (fst local_e, angle, fst (snd local_e), snd (snd local_e))
                        else Some b)"
    by (simp only: evaluate_def Let_def local_e_def err_left_def dx_left_def local_d_def err_cx_def
          dx_cx_def dy_c_def local_c_def sc_def local_b_def err_b_def dy_b_def dx_b_def local_a_def
          dy_a_def dx_a_def floor_cent_def rot_pts_def split_def fst_conv snd_conv)
  with ev new best show ?thesis by (auto split: option.splits if_splits)
qed

lemma evaluate_at_fit_ok:
  assumes "\<forall>b. best = Some b \<longrightarrow> fit_ok slab_hull tendon_hull tend_cent b"
    and "evaluate_at slab_hull tendon_hull tend_cent best angle = Inr x"
  shows "\<forall>b. x = Some b \<longrightarrow> fit_ok slab_hull tendon_hull tend_cent b"
proof (cases angle)
  case (Finite a)
  with assms(2) have x: "evaluate slab_hull tendon_hull tend_cent best a = x"
    by (simp add: evaluate_at_def)
  show ?thesis
  proof (intro allI impI)
    fix b assume "x = Some b"
    with x have "evaluate slab_hull tendon_hull tend_cent best a = Some b" by simp
    with assms(1) show "fit_ok slab_hull tendon_hull tend_cent b" by (rule evaluate_fit_ok)
  qed
next
  case PosInf
  with assms(2) show ?thesis by (simp add: evaluate_at_def)
next
  case NegInf
  with assms(2) show ?thesis by (simp add: evaluate_at_def)
next
  case NaN
  with assms(2) show ?thesis by (simp add: evaluate_at_def)
qed

lemma sweep_fit_ok:
  assumes "sweep slab_hull tendon_hull tend_cent step angle best = Some y"
  shows "(\<forall>b. best = Some b \<longrightarrow> fit_ok slab_hull tendon_hull tend_cent b) \<longrightarrow>
         (\<forall>b. y = Inr (Some b) \<longrightarrow> fit_ok slab_hull tendon_hull tend_cent b)"
proof (rule sweep.raw_induct
         [where P = "\<lambda>S T c step ang bst y. (\<forall>b. bst = Some b \<longrightarrow> fit_ok S T c b) \<longrightarrow>
                       (\<forall>b. y = Inr (Some b) \<longrightarrow> fit_ok S T c b)", OF _ assms])
  fix sweep' S T c step ang bst y
  assume IH: "\<And>S T c step ang bst y. sweep' S T c step ang bst = Some y \<Longrightarrow>
                 (\<forall>b. bst = Some b \<longrightarrow> fit_ok S T c b) \<longrightarrow>
                 (\<forall>b. y = Inr (Some b) \<longrightarrow> fit_ok S T c b)"
    and eq: "(if float_less ang (Finite two_pi)
              then (case evaluate_at S T c bst ang of
                      Inl e \<Rightarrow> Some (Inl e)
                    | Inr b \<Rightarrow> sweep' S T c step (float_add ang step) b)
              else Some (Inr bst)) = Some y"
  show "(\<forall>b. bst = Some b \<longrightarrow> fit_ok S T c b) \<longrightarrow> (\<forall>b. y = Inr (Some b) \<longrightarrow> fit_ok S T c b)"
  proof
    assume ok: "\<forall>b. bst = Some b \<longrightarrow> fit_ok S T c b"
    show "\<forall>b. y = Inr (Some b) \<longrightarrow> fit_ok S T c b"
    proof (cases "float_less ang (Finite two_pi)")
      case False
      with eq ok show ?thesis by auto
    next
      case True
      show ?thesis
      proof (cases "evaluate_at S T c bst ang")
        case (Inl e)
        with eq True show ?thesis by auto
      next
        case (Inr x)
        from evaluate_at_fit_ok [OF ok Inr] have "\<forall>b. x = Some b \<longrightarrow> fit_ok S T c b" .
        moreover from eq True Inr have "sweep' S T c step (float_add ang step) x = Some y" by simp
        ultimately show ?thesis using IH by blast
      qed
    qed
  qed
qed

lemma evaluate_all_fit_ok:
  "\<forall>b. best = Some b \<longrightarrow> fit_ok slab_hull tendon_hull tend_cent b \<Longrightarrow>
   evaluate_all slab_hull tendon_hull tend_cent as best = Inr x \<Longrightarrow>
   \<forall>b. x = Some b \<longrightarrow> fit_ok slab_hull tendon_hull tend_cent b"
proof (induction as arbitrary: best)
  case Nil
  then show ?case by simp
next
  case (Cons a as)
  show ?case
  proof (cases "evaluate_at slab_hull tendon_hull tend_cent best a")
    case (Inl e)
    with Cons.prems(2) show ?thesis by simp
  next
    case (Inr y)
    from evaluate_at_fit_ok [OF Cons.prems(1) Inr]
    have "\<forall>b. y = Some b \<longrightarrow> fit_ok slab_hull tendon_hull tend_cent b" .
    moreover from Cons.prems(2) Inr
    have "evaluate_all slab_hull tendon_hull tend_cent as y = Inr x" by simp
    ultimately show ?thesis by (rule Cons.IH)
  qed
qed

lemma snap_fit_ok:
  assumes "fit_ok slab_hull tendon_hull tend_cent b"
  shows "fit_ok slab_hull tendon_hull tend_cent (snap slab_hull tendon_hull tend_cent tol b)"
proof -
  obtain err ang dx dy where b: "b = (err, ang, dx, dy)" by (cases b)
  show ?thesis
    using assms unfolding b
    by (simp add: fit_ok_def snap_def Let_def shifted_def rotate_points_def split_def o_def
          add.assoc)
qed

subsection \<open>The sweep at the default step\<close>

lemma round_double_tie:
  assumes "0 < a" "2 powi (e + 52) \<le> a" "a < 2 powi (e + 53)" "- 1074 \<le> e"
    and "a / 2 powi e = of_int f + 1 / 2" "m = (if even f then f else f + 1)"
    and "of_int m * 2 powi e < (2::rat) ^ 1024"
  shows "round_double a = Finite (of_int m * 2 powi e)"
proof -
  have "floor_log2 a = e + 52"
    using assms(1,2,3) by (intro floor_log2_unique) (simp_all add: add.commute add.left_commute)
  with assms(4) have e: "max (floor_log2 a - 52) (- 1074) = e" by simp
  have fl: "\<lfloor>(of_int f :: rat) + 1 / 2\<rfloor> = f" by (intro floor_unique) simp_all
  have r: "round_half_even (a / 2 powi e) = m"
    unfolding assms(5) assms(6) by (simp add: round_half_even_def Let_def fl)
  have ne: "(a = 0) = False" "(a < 0) = False" "\<bar>a\<bar> = a" using assms(1) by simp_all
  have nov: "((2::rat) ^ 1024 \<le> of_int m * 2 powi e) = False"
    using assms(7) by (metis linorder_not_less)
  show ?thesis
    by (simp only: round_double_def Let_def ne e r nov if_False)
qed

lemma radians_default: "radians 15 = Finite (4716158501352293 / 18014398509481984)"
proof -
  have "round_double (15 * deg_to_rad) = Finite (of_int 4716158501352293 * 2 powi (-54))"
    unfolding deg_to_rad_def by (rule round_double_eval) (simp_all add: power_int_minus)
  then show ?thesis by (simp add: radians_def power_int_minus)
qed

lemma default_pass_0:
  "float_add (Finite (0)) (Finite (4716158501352293 / 18014398509481984)) = Finite (4716158501352293 / 18014398509481984)"
proof -
  have "round_double (0 + 4716158501352293 / 18014398509481984) = Finite (of_int 4716158501352293 * 2 powi (-54))"
    by (rule round_double_eval) (simp_all add: power_int_minus)
  then show ?thesis by (simp add: power_int_minus)
qed

lemma default_pass_1:
  "float_add (Finite (4716158501352293 / 18014398509481984)) (Finite (4716158501352293 / 18014398509481984)) = Finite (4716158501352293 / 9007199254740992)"
proof -
  have "round_double (4716158501352293 / 18014398509481984 + 4716158501352293 / 18014398509481984) = Finite (of_int 4716158501352293 * 2 powi (-53))"
    by (rule round_double_eval) (simp_all add: power_int_minus)
  then show ?thesis by (simp add: power_int_minus)
qed

lemma default_pass_2:
  "float_add (Finite (4716158501352293 / 9007199254740992)) (Finite (4716158501352293 / 18014398509481984)) = Finite (884279719003555 / 1125899906842624)"
proof -
  have "round_double (4716158501352293 / 9007199254740992 + 4716158501352293 / 18014398509481984) = Finite (of_int 7074237752028440 * 2 powi (-53))"
    by (rule round_double_tie [where f = 7074237752028439]) (simp_all add: power_int_minus)
  then show ?thesis by (simp add: power_int_minus)
qed

lemma default_pass_3:
  "float_add (Finite (884279719003555 / 1125899906842624)) (Finite (4716158501352293 / 18014398509481984)) = Finite (4716158501352293 / 4503599627370496)"
proof -
  have "round_double (884279719003555 / 1125899906842624 + 4716158501352293 / 18014398509481984) = Finite (of_int 4716158501352293 * 2 powi (-52))"
    by (rule round_double_eval) (simp_all add: power_int_minus)
  then show ?thesis by (simp add: power_int_minus)
qed

lemma default_pass_4:
  "float_add (Finite (4716158501352293 / 4503599627370496)) (Finite (4716158501352293 / 18014398509481984)) = Finite (2947599063345183 / 2251799813685248)"
proof -
  have "round_double (4716158501352293 / 4503599627370496 + 4716158501352293 / 18014398509481984) = Finite (of_int 5895198126690366 * 2 powi (-52))"
    by (rule round_double_eval) (simp_all add: power_int_minus)
  then show ?thesis by (simp add: power_int_minus)
qed

lemma default_pass_5:
  "float_add (Finite (2947599063345183 / 2251799813685248)) (Finite (4716158501352293 / 18014398509481984)) = Finite (7074237752028439 / 4503599627370496)"
proof -
  have "round_double (2947599063345183 / 2251799813685248 + 4716158501352293 / 18014398509481984) = Finite (of_int 7074237752028439 * 2 powi (-52))"
    by (rule round_double_eval) (simp_all add: power_int_minus)
  then show ?thesis by (simp add: power_int_minus)
qed

lemma default_pass_6:
  "float_add (Finite (7074237752028439 / 4503599627370496)) (Finite (4716158501352293 / 18014398509481984)) = Finite (515829836085407 / 281474976710656)"
proof -
  have "round_double (7074237752028439 / 4503599627370496 + 4716158501352293 / 18014398509481984) = Finite (of_int 8253277377366512 * 2 powi (-52))"
    by (rule round_double_eval) (simp_all add: power_int_minus)
  then show ?thesis by (simp add: power_int_minus)
qed

lemma default_pass_7:
  "float_add (Finite (515829836085407 / 281474976710656)) (Finite (4716158501352293 / 18014398509481984)) = Finite (4716158501352293 / 2251799813685248)"
proof -
  have "round_double (515829836085407 / 281474976710656 + 4716158501352293 / 18014398509481984) = Finite (of_int 4716158501352293 * 2 powi (-51))"
    by (rule round_double_eval) (simp_all add: power_int_minus)
  then show ?thesis by (simp add: power_int_minus)
qed

lemma default_pass_8:
  "float_add (Finite (4716158501352293 / 2251799813685248)) (Finite (4716158501352293 / 18014398509481984)) = Finite (2652839157010665 / 1125899906842624)"
proof -
  have "round_double (4716158501352293 / 2251799813685248 + 4716158501352293 / 18014398509481984) = Finite (of_int 5305678314021330 * 2 powi (-51))"
    by (rule round_double_eval) (simp_all add: power_int_minus)
  then show ?thesis by (simp add: power_int_minus)
qed

lemma default_pass_9:
  "float_add (Finite (2652839157010665 / 1125899906842624)) (Finite (4716158501352293 / 18014398509481984)) = Finite (5895198126690367 / 2251799813685248)"
proof -
  have "round_double (2652839157010665 / 1125899906842624 + 4716158501352293 / 18014398509481984) = Finite (of_int 5895198126690367 * 2 powi (-51))"
    by (rule round_double_eval) (simp_all add: power_int_minus)
  then show ?thesis by (simp add: power_int_minus)
qed

lemma default_pass_10:
  "float_add (Finite (5895198126690367 / 2251799813685248)) (Finite (4716158501352293 / 18014398509481984)) = Finite (1621179484839851 / 562949953421312)"
proof -
  have "round_double (5895198126690367 / 2251799813685248 + 4716158501352293 / 18014398509481984) = Finite (of_int 6484717939359404 * 2 powi (-51))"
    by (rule round_double_eval) (simp_all add: power_int_minus)
  then show ?thesis by (simp add: power_int_minus)
qed

lemma default_pass_11:
  "float_add (Finite (1621179484839851 / 562949953421312)) (Finite (4716158501352293 / 18014398509481984)) = Finite (7074237752028441 / 2251799813685248)"
proof -
  have "round_double (1621179484839851 / 562949953421312 + 4716158501352293 / 18014398509481984) = Finite (of_int 7074237752028441 * 2 powi (-51))"
    by (rule round_double_eval) (simp_all add: power_int_minus)
  then show ?thesis by (simp add: power_int_minus)
qed

lemma default_pass_12:
  "float_add (Finite (7074237752028441 / 2251799813685248)) (Finite (4716158501352293 / 18014398509481984)) = Finite (3831878782348739 / 1125899906842624)"
proof -
  have "round_double (7074237752028441 / 2251799813685248 + 4716158501352293 / 18014398509481984) = Finite (of_int 7663757564697478 * 2 powi (-51))"
    by (rule round_double_eval) (simp_all add: power_int_minus)
  then show ?thesis by (simp add: power_int_minus)
qed

lemma default_pass_13:
  "float_add (Finite (3831878782348739 / 1125899906842624)) (Finite (4716158501352293 / 18014398509481984)) = Finite (8253277377366515 / 2251799813685248)"
proof -
  have "round_double (3831878782348739 / 1125899906842624 + 4716158501352293 / 18014398509481984) = Finite (of_int 8253277377366515 * 2 powi (-51))"
    by (rule round_double_eval) (simp_all add: power_int_minus)
  then show ?thesis by (simp add: power_int_minus)
qed

lemma default_pass_14:
  "float_add (Finite (8253277377366515 / 2251799813685248)) (Finite (4716158501352293 / 18014398509481984)) = Finite (276337412188611 / 70368744177664)"
proof -
  have "round_double (8253277377366515 / 2251799813685248 + 4716158501352293 / 18014398509481984) = Finite (of_int 8842797190035552 * 2 powi (-51))"
    by (rule round_double_eval) (simp_all add: power_int_minus)
  then show ?thesis by (simp add: power_int_minus)
qed

lemma default_pass_15:
  "float_add (Finite (276337412188611 / 70368744177664)) (Finite (4716158501352293 / 18014398509481984)) = Finite (2358079250676147 / 562949953421312)"
proof -
  have "round_double (276337412188611 / 70368744177664 + 4716158501352293 / 18014398509481984) = Finite (of_int 4716158501352294 * 2 powi (-50))"
    by (rule round_double_eval) (simp_all add: power_int_minus)
  then show ?thesis by (simp add: power_int_minus)
qed

lemma default_pass_16:
  "float_add (Finite (2358079250676147 / 562949953421312)) (Finite (4716158501352293 / 18014398509481984)) = Finite (1252729601921703 / 281474976710656)"
proof -
  have "round_double (2358079250676147 / 562949953421312 + 4716158501352293 / 18014398509481984) = Finite (of_int 5010918407686812 * 2 powi (-50))"
    by (rule round_double_eval) (simp_all add: power_int_minus)
  then show ?thesis by (simp add: power_int_minus)
qed

lemma default_pass_17:
  "float_add (Finite (1252729601921703 / 281474976710656)) (Finite (4716158501352293 / 18014398509481984)) = Finite (2652839157010665 / 562949953421312)"
proof -
  have "round_double (1252729601921703 / 281474976710656 + 4716158501352293 / 18014398509481984) = Finite (of_int 5305678314021330 * 2 powi (-50))"
    by (rule round_double_eval) (simp_all add: power_int_minus)
  then show ?thesis by (simp add: power_int_minus)
qed

lemma default_pass_18:
  "float_add (Finite (2652839157010665 / 562949953421312)) (Finite (4716158501352293 / 18014398509481984)) = Finite (700054777544481 / 140737488355328)"
proof -
  have "round_double (2652839157010665 / 562949953421312 + 4716158501352293 / 18014398509481984) = Finite (of_int 5600438220355848 * 2 powi (-50))"
    by (rule round_double_eval) (simp_all add: power_int_minus)
  then show ?thesis by (simp add: power_int_minus)
qed

lemma default_pass_19:
  "float_add (Finite (700054777544481 / 140737488355328)) (Finite (4716158501352293 / 18014398509481984)) = Finite (2947599063345183 / 562949953421312)"
proof -
  have "round_double (700054777544481 / 140737488355328 + 4716158501352293 / 18014398509481984) = Finite (of_int 5895198126690366 * 2 powi (-50))"
    by (rule round_double_eval) (simp_all add: power_int_minus)
  then show ?thesis by (simp add: power_int_minus)
qed

lemma default_pass_20:
  "float_add (Finite (2947599063345183 / 562949953421312)) (Finite (4716158501352293 / 18014398509481984)) = Finite (1547489508256221 / 281474976710656)"
proof -
  have "round_double (2947599063345183 / 562949953421312 + 4716158501352293 / 18014398509481984) = Finite (of_int 6189958033024884 * 2 powi (-50))"
    by (rule round_double_eval) (simp_all add: power_int_minus)
  then show ?thesis by (simp add: power_int_minus)
qed

lemma default_pass_21:
  "float_add (Finite (1547489508256221 / 281474976710656)) (Finite (4716158501352293 / 18014398509481984)) = Finite (3242358969679701 / 562949953421312)"
proof -
  have "round_double (1547489508256221 / 281474976710656 + 4716158501352293 / 18014398509481984) = Finite (of_int 6484717939359402 * 2 powi (-50))"
    by (rule round_double_eval) (simp_all add: power_int_minus)
  then show ?thesis by (simp add: power_int_minus)
qed

lemma default_pass_22:
  "float_add (Finite (3242358969679701 / 562949953421312)) (Finite (4716158501352293 / 18014398509481984)) = Finite (211858682677935 / 35184372088832)"
proof -
  have "round_double (3242358969679701 / 562949953421312 + 4716158501352293 / 18014398509481984) = Finite (of_int 6779477845693920 * 2 powi (-50))"
    by (rule round_double_eval) (simp_all add: power_int_minus)
  then show ?thesis by (simp add: power_int_minus)
qed

lemma default_pass_23:
  "float_add (Finite (211858682677935 / 35184372088832)) (Finite (4716158501352293 / 18014398509481984)) = Finite (3537118876014219 / 562949953421312)"
proof -
  have "round_double (211858682677935 / 35184372088832 + 4716158501352293 / 18014398509481984) = Finite (of_int 7074237752028438 * 2 powi (-50))"
    by (rule round_double_eval) (simp_all add: power_int_minus)
  then show ?thesis by (simp add: power_int_minus)
qed

lemma default_pass_24:
  "float_add (Finite (3537118876014219 / 562949953421312)) (Finite (4716158501352293 / 18014398509481984)) = Finite (1842249414590739 / 281474976710656)"
proof -
  have "round_double (3537118876014219 / 562949953421312 + 4716158501352293 / 18014398509481984) = Finite (of_int 7368997658362956 * 2 powi (-50))"
    by (rule round_double_eval) (simp_all add: power_int_minus)
  then show ?thesis by (simp add: power_int_minus)
qed

lemmas default_passes = default_pass_0 default_pass_1 default_pass_2 default_pass_3 default_pass_4 default_pass_5 default_pass_6 default_pass_7 default_pass_8 default_pass_9 default_pass_10 default_pass_11 default_pass_12 default_pass_13 default_pass_14 default_pass_15 default_pass_16 default_pass_17 default_pass_18 default_pass_19 default_pass_20 default_pass_21 default_pass_22 default_pass_23 default_pass_24

text \<open>One pass, and the passes along a list of angles.\<close>

lemma sweep_along:
  "list_all2 (\<lambda>a a'. a < two_pi \<and> float_add (Finite a) step = Finite a') (a # as) (as @ [z]) \<Longrightarrow>
   sweep slab_hull tendon_hull tend_cent step (Finite a) best
     = sweep slab_hull tendon_hull tend_cent step (Finite z)
         (foldl (evaluate slab_hull tendon_hull tend_cent) best (a # as))"
proof (induction as arbitrary: a best)
  case Nil
  then have "a < two_pi" "float_add (Finite a) step = Finite z" by simp_all
  then show ?case by (simp add: sweep_pass)
next
  case (Cons b as)
  then have a: "a < two_pi" "float_add (Finite a) step = Finite b"
    and rest: "list_all2 (\<lambda>a a'. a < two_pi \<and> float_add (Finite a) step = Finite a') (b # as) (as @ [z])"
    by simp_all
  from Cons.IH [OF rest, of "evaluate slab_hull tendon_hull tend_cent best a"] a
  show ?case by (simp add: sweep_pass)
qed

text \<open>
  At the default step the sweep makes 25 passes: the sum of 24 steps is the float just
  below \<open>2 * math.pi\<close>.
\<close>

lemma sweep_default:
  "sweep slab_hull tendon_hull tend_cent (radians 15) (Finite 0) None
     = Some (Inr (foldl (evaluate slab_hull tendon_hull tend_cent) None default_angles))"
  "length default_angles = 25"
proof -
  let ?z = "1842249414590739 / 281474976710656 :: rat"
  have "list_all2 (\<lambda>a a'. a < two_pi \<and> float_add (Finite a) (radians 15) = Finite a')
          (0 # [4716158501352293 / 18014398509481984,
      4716158501352293 / 9007199254740992,
      884279719003555 / 1125899906842624,
      4716158501352293 / 4503599627370496,
      2947599063345183 / 2251799813685248,
      7074237752028439 / 4503599627370496,
      515829836085407 / 281474976710656,
      4716158501352293 / 2251799813685248,
      2652839157010665 / 1125899906842624,
      5895198126690367 / 2251799813685248,
      1621179484839851 / 562949953421312,
      7074237752028441 / 2251799813685248,
      3831878782348739 / 1125899906842624,
      8253277377366515 / 2251799813685248,
      276337412188611 / 70368744177664,
      2358079250676147 / 562949953421312,
      1252729601921703 / 281474976710656,
      2652839157010665 / 562949953421312,
      700054777544481 / 140737488355328,
      2947599063345183 / 562949953421312,
      1547489508256221 / 281474976710656,
      3242358969679701 / 562949953421312,
      211858682677935 / 35184372088832,
      3537118876014219 / 562949953421312])
          ([4716158501352293 / 18014398509481984,
      4716158501352293 / 9007199254740992,
      884279719003555 / 1125899906842624,
      4716158501352293 / 4503599627370496,
      2947599063345183 / 2251799813685248,
      7074237752028439 / 4503599627370496,
      515829836085407 / 281474976710656,
      4716158501352293 / 2251799813685248,
      2652839157010665 / 1125899906842624,
      5895198126690367 / 2251799813685248,
      1621179484839851 / 562949953421312,
      7074237752028441 / 2251799813685248,
      3831878782348739 / 1125899906842624,
      8253277377366515 / 2251799813685248,
      276337412188611 / 70368744177664,
      2358079250676147 / 562949953421312,
      1252729601921703 / 281474976710656,
      2652839157010665 / 562949953421312,
      700054777544481 / 140737488355328,
      2947599063345183 / 562949953421312,
      1547489508256221 / 281474976710656,
      3242358969679701 / 562949953421312,
      211858682677935 / 35184372088832,
      3537118876014219 / 562949953421312] @ [?z])"
    unfolding radians_default
    by (simp add: default_passes two_pi_def del: float_add.simps)
  from sweep_along [OF this]
  have eq: "sweep slab_hull tendon_hull tend_cent (radians 15) (Finite 0) None
          = sweep slab_hull tendon_hull tend_cent (radians 15) (Finite ?z)
              (foldl (evaluate slab_hull tendon_hull tend_cent) None default_angles)"
    by (simp only: default_angles_def)
  have nl: "\<not> float_less (Finite ?z) (Finite two_pi)" by (simp add: two_pi_def)
  show "sweep slab_hull tendon_hull tend_cent (radians 15) (Finite 0) None
     = Some (Inr (foldl (evaluate slab_hull tendon_hull tend_cent) None default_angles))"
    unfolding eq by (rule sweep_exit [OF nl])
  show "length default_angles = 25" by (simp add: default_angles_def)
qed

subsection \<open>The final decision\<close>

lemma best_after_snap_cases:
  assumes "slab_hull \<noteq> []" "convex_hull tendon_pts \<noteq> []"
  shows "best_after_snap slab_hull tendon_pts a r t rot = None \<or>
         (\<exists>e. best_after_snap slab_hull tendon_pts a r t rot = Some (Inl e)) \<or>
         (\<exists>f. best_after_snap slab_hull tendon_pts a r t rot = Some (Inr (Some f)))"
proof (cases rot)
  case False
  obtain b where b: "evaluate slab_hull (convex_hull tendon_pts) (centroid (convex_hull tendon_pts)) None 0 = Some b"
    using evaluate_Some by blast
  show ?thesis
    using assms False b
    by (simp add: best_after_snap_def Let_def evaluate_at_def del: split_paired_Ex)
next
  case True
  let ?T = "convex_hull tendon_pts"
  let ?sw = "sweep slab_hull ?T (centroid ?T) (radians a) (Finite 0) None"
  show ?thesis
  proof (cases ?sw)
    case None
    then show ?thesis using assms True by (simp add: best_after_snap_def Let_def)
  next
    case (Some y)
    show ?thesis
    proof (cases y)
      case (Inl e)
      with Some show ?thesis using assms True by (simp add: best_after_snap_def Let_def)
    next
      case (Inr ob)
      have "float_less (Finite 0) (Finite two_pi)" using two_pi_bounds by simp
      with sweep_result [OF Some] Inr obtain b where ob: "ob = Some b" by auto
      from refine_cases [of slab_hull ?T "centroid ?T" r b] show ?thesis
      proof (elim disjE exE)
        fix e assume "refine slab_hull ?T (centroid ?T) r b = Inl e"
        then show ?thesis
          using assms True Some Inr ob by (simp add: best_after_snap_def Let_def)
      next
        fix b' assume "refine slab_hull ?T (centroid ?T) r b = Inr (Some b')"
        then show ?thesis
          using assms True Some Inr ob
          by (simp add: best_after_snap_def Let_def del: split_paired_Ex)
      qed
    qed
  qed
qed

lemma best_after_snap_returns:
  assumes "slab_hull \<noteq> []" "convex_hull tendon_pts \<noteq> []"
    and "rot \<longrightarrow> 1 / 1000 \<le> a \<and> \<bar>r\<bar> \<le> 360"
  shows "\<exists>f. best_after_snap slab_hull tendon_pts a r t rot = Some (Inr (Some f))"
proof (cases rot)
  case False
  obtain b where "evaluate slab_hull (convex_hull tendon_pts) (centroid (convex_hull tendon_pts)) None 0 = Some b"
    using evaluate_Some by blast
  then show ?thesis
    using assms False by (simp add: best_after_snap_def Let_def evaluate_at_def del: split_paired_Ex)
next
  case True
  let ?T = "convex_hull tendon_pts"
  from True assms(3) have a: "1 / 1000 \<le> a" and r: "\<bar>r\<bar> \<le> 360" by simp_all
  from sweep_from_zero [OF radians_step [OF a], of slab_hull ?T "centroid ?T"]
  obtain b where b: "sweep slab_hull ?T (centroid ?T) (radians a) (Finite 0) None = Some (Inr (Some b))"
    "0 \<le> fst (snd b)" "fst (snd b) < two_pi" by blast
  from refine_returns [OF r b(2,3), of slab_hull ?T "centroid ?T"]
  obtain b' where "refine slab_hull ?T (centroid ?T) r b = Inr (Some b')" by blast
  then show ?thesis
    using assms(1,2) True b(1) by (simp add: best_after_snap_def Let_def del: split_paired_Ex)
qed

lemma convex_hull_single: "convex_hull [p] = [p]"
  by (simp add: convex_hull_def)

lemma radians_zero: "radians 0 = Finite 0"
  by (simp add: radians_def round_double_0)

lemma best_after_snap_fit_ok:
  assumes "best_after_snap slab_hull tendon_pts a r t rot = Some (Inr (Some f))"
  shows "fit_ok slab_hull (convex_hull tendon_pts) (centroid (convex_hull tendon_pts)) f"
proof -
  let ?T = "convex_hull tendon_pts"
  let ?c = "centroid ?T"
  have ne: "slab_hull \<noteq> []" "?T \<noteq> []"
    using assms by (auto simp: best_after_snap_def Let_def split: if_splits)
  have none: "\<forall>b. (None :: fit option) = Some b \<longrightarrow> fit_ok slab_hull ?T ?c b" by simp
  show ?thesis
  proof (cases rot)
    case False
    obtain b where b: "evaluate slab_hull ?T ?c None 0 = Some b" using evaluate_Some by blast
    from none b have "fit_ok slab_hull ?T ?c b" by (rule evaluate_fit_ok)
    then have "fit_ok slab_hull ?T ?c (snap slab_hull ?T ?c t b)" by (rule snap_fit_ok)
    moreover have "f = snap slab_hull ?T ?c t b"
      using assms ne False b by (simp add: best_after_snap_def Let_def evaluate_at_def)
    ultimately show ?thesis by simp
  next
    case True
    let ?sw = "sweep slab_hull ?T ?c (radians a) (Finite 0) None"
    from assms ne True obtain b where sw: "?sw = Some (Inr (Some b))"
      by (auto simp: best_after_snap_def Let_def split: option.splits sum.splits)
    from sweep_fit_ok [OF sw] have okb: "fit_ok slab_hull ?T ?c b" by simp
    from assms ne True sw obtain b' where
      rf: "refine slab_hull ?T ?c r b = Inr (Some b')" and f: "f = snap slab_hull ?T ?c t b'"
      by (auto simp: best_after_snap_def Let_def split: option.splits sum.splits)
    have "\<forall>x. Some b = Some x \<longrightarrow> fit_ok slab_hull ?T ?c x" using okb by simp
    from evaluate_all_fit_ok [OF this rf [unfolded refine_def]]
    have "fit_ok slab_hull ?T ?c b'" by simp
    then show ?thesis unfolding f by (rule snap_fit_ok)
  qed
qed

lemma fit_ok_transform_error:
  "fit_ok slab_hull tendon_hull (centroid tendon_hull) (err, angle, dx, dy) \<longleftrightarrow>
   err = transform_error slab_hull tendon_hull angle dx dy"
  by (simp add: fit_ok_def transform_error_def)


text \<open>
  C7, as stated, fails: with non-empty hulls, the rotation sweep on and an angle step
  of zero, the loop \<open>while angle < 2 * math.pi\<close> never ends, and the function returns
  neither \<open>None\<close> nor a transform.
\<close>

theorem find_best_transform_zero_step_never_returns:
  "find_best_transform [(0, 0), (4, 0), (4, 4), (0, 4)] [(1, 1)] 0 5 3 1 True = None"
  by (simp add: find_best_transform_def best_after_snap_def convex_hull_single radians_zero
        sweep_zero_step)

text \<open>
  C7, amended.  Given a non-empty slab hull and a non-empty tendon hull: whenever
  \<open>find_best_transform\<close> returns, the tuple \<open>(err, angle, dx, dy)\<close> after the snap
  post-process exists, \<open>err\<close> is the error of the transform \<open>(angle, dx, dy)\<close>, the
  function has returned \<open>None\<close> exactly when \<open>err\<close> exceeds \<open>max_error_ft\<close>, and
  otherwise it has returned \<open>(angle, dx, dy, err)\<close> with \<open>err\<close> at most
  \<open>max_error_ft\<close>.  And it does return when the rotation sweep is off, or when the
  angle step is at least a thousandth of a degree and the refine step at most 360
  degrees in magnitude.
\<close>

theorem find_best_transform_decision:
  "(slab_hull \<noteq> [] \<and> convex_hull tendon_pts \<noteq> [] \<and>
    find_best_transform slab_hull tendon_pts a r m t rot = Some (Inr res) \<longrightarrow>
      (\<exists>err angle dx dy.
         best_after_snap slab_hull tendon_pts a r t rot = Some (Inr (Some (err, angle, dx, dy))) \<and>
         err = transform_error slab_hull (convex_hull tendon_pts) angle dx dy \<and>
         (res = None \<longleftrightarrow> err > m) \<and>
         (res \<noteq> None \<longrightarrow> res = Some (angle, dx, dy, err) \<and> err \<le> m))) \<and>
   (slab_hull \<noteq> [] \<and> convex_hull tendon_pts \<noteq> [] \<and>
    (rot \<longrightarrow> 1 / 1000 \<le> a \<and> \<bar>r\<bar> \<le> 360) \<longrightarrow>
      (\<exists>res. find_best_transform slab_hull tendon_pts a r m t rot = Some (Inr res)))"
proof (intro conjI impI)
  assume h: "slab_hull \<noteq> [] \<and> convex_hull tendon_pts \<noteq> [] \<and>
    find_best_transform slab_hull tendon_pts a r m t rot = Some (Inr res)"
  then have "best_after_snap slab_hull tendon_pts a r t rot \<noteq> None"
    "\<forall>e. best_after_snap slab_hull tendon_pts a r t rot \<noteq> Some (Inl e)"
    by (auto simp: find_best_transform_def split: option.splits)
  with best_after_snap_cases [of slab_hull tendon_pts a r t rot] h
  obtain err angle dx dy where
    f: "best_after_snap slab_hull tendon_pts a r t rot = Some (Inr (Some (err, angle, dx, dy)))"
    by (metis prod_cases4)
  from best_after_snap_fit_ok [OF f]
  have e: "err = transform_error slab_hull (convex_hull tendon_pts) angle dx dy"
    by (simp only: fit_ok_transform_error)
  from f h have "res = (if err > m then None else Some (angle, dx, dy, err))"
    by (auto simp: find_best_transform_def split: if_splits)
  with f e show "\<exists>err angle dx dy.
         best_after_snap slab_hull tendon_pts a r t rot = Some (Inr (Some (err, angle, dx, dy))) \<and>
         err = transform_error slab_hull (convex_hull tendon_pts) angle dx dy \<and>
         (res = None \<longleftrightarrow> err > m) \<and>
         (res \<noteq> None \<longrightarrow> res = Some (angle, dx, dy, err) \<and> err \<le> m)"
    by (intro exI [of _ err] exI [of _ angle] exI [of _ dx] exI [of _ dy]) auto
next
  assume h: "slab_hull \<noteq> [] \<and> convex_hull tendon_pts \<noteq> [] \<and>
    (rot \<longrightarrow> 1 / 1000 \<le> a \<and> \<bar>r\<bar> \<le> 360)"
  then obtain f where "best_after_snap slab_hull tendon_pts a r t rot = Some (Inr (Some f))"
    using best_after_snap_returns [of slab_hull tendon_pts rot a r t] by blast
  then show "\<exists>res. find_best_transform slab_hull tendon_pts a r m t rot = Some (Inr res)"
    by (cases f) (simp add: find_best_transform_def)
qed

text \<open>The decision at the default steps of 15 and 5 degrees.\<close>

theorem find_best_transform_decision_witness:
  "\<exists>res err angle dx dy.
     find_best_transform [(0, 0), (4, 0), (4, 4), (0, 4)] [(1, 1)] 15 5 3 1 True = Some (Inr res) \<and>
     best_after_snap [(0, 0), (4, 0), (4, 4), (0, 4)] [(1, 1)] 15 5 1 True
       = Some (Inr (Some (err, angle, dx, dy))) \<and>
     err = transform_error [(0, 0), (4, 0), (4, 4), (0, 4)] (convex_hull [(1, 1)]) angle dx dy \<and>
     (res = None \<longleftrightarrow> err > 3)"
proof -
  have h: "[(0, 0), (4, 0), (4, 4), (0, 4)] \<noteq> ([] :: point list)" "convex_hull [(1, 1)] \<noteq> []"
    "(1::rat) / 1000 \<le> 15 \<and> \<bar>5::rat\<bar> \<le> 360"
    by (simp_all add: convex_hull_single)
  from find_best_transform_decision
         [of "[(0, 0), (4, 0), (4, 4), (0, 4)]" "[(1, 1)]" 15 5 3 1 True, THEN conjunct2] h
  obtain res where res: "find_best_transform [(0, 0), (4, 0), (4, 4), (0, 4)] [(1, 1)] 15 5 3 1 True = Some (Inr res)"
    by auto
  from find_best_transform_decision
         [of "[(0, 0), (4, 0), (4, 4), (0, 4)]" "[(1, 1)]" 15 5 3 1 True res, THEN conjunct1] h res
  show ?thesis by blast
qed

end
